theory Spec2Isabelle
  imports Complex_Main "HOL-Library.Word" "HOL-Library.Sublist"
begin

section \<open>Raster images and grid layouts\<close>

text \<open>
  The sticker application imports \<^verbatim>\<open>composeStickerSheet\<close>, \<^verbatim>\<open>processTransparentSheet\<close>
  and \<^verbatim>\<open>splitStickerSheet\<close> from \<^verbatim>\<open>./utils/imageProcessor\<close>. That module is not among
  the source files, so the three image operations (GridSlicer, GridComposer and
  ChromaKeyExtractor) are modelled from the specification's sections 3, 4 and 7.
  The application code that calls them (\<^verbatim>\<open>src/App.tsx\<close>) and the caption service
  (\<^verbatim>\<open>src/services/geminiService.ts\<close>) are embedded from the source further below.
\<close>

text \<open>Modelled from the spec: the pixel of section 3, a 4-channel (red, green, blue,
  alpha) tuple of unsigned 8-bit values.\<close>

record pixel =
  red :: "8 word"
  green :: "8 word"
  blue :: "8 word"
  alpha :: "8 word"

text \<open>
  Modelled from the spec: the RasterImage of section 3 (the image type of the absent
  module). It owns a contiguous row-major buffer of pixels with an integer width and
  height. The buffer is kept as a list of pixels, so the specification's byte-length
  invariant (width * height * 4) reads as \<open>wf_image\<close> here: one entry per pixel.
\<close>

record raster_image =
  width :: nat
  height :: nat
  pixels :: "pixel list"

definition wf_image :: "raster_image \<Rightarrow> bool" where
  "wf_image img \<longleftrightarrow> length (pixels img) = width img * height img"

text \<open>Modelled from the spec: the GridLayout of section 3, an immutable pair
  (columns, rows) of positive integers.\<close>

record grid_layout =
  columns :: nat
  rows :: nat

definition wf_layout :: "grid_layout \<Rightarrow> bool" where
  "wf_layout L \<longleftrightarrow> 0 < columns L \<and> 0 < rows L"

text \<open>Modelled from the spec: the StickerSlot of section 3, a (RasterImage, originalIndex)
  pair produced by the slicer.\<close>

record sticker_slot =
  slot_image :: raster_image
  originalIndex :: nat

text \<open>Modelled from the spec: the error kinds of section 7.\<close>

datatype image_error = DimensionError | ShapeMismatchError | DecodeError

section \<open>GridSlicer\<close>

text \<open>
  Modelled from the spec: \<^verbatim>\<open>splitStickerSheet\<close> of the absent module
  \<^verbatim>\<open>utils/imageProcessor\<close>, after section 4.2. The cell at grid position (row r,
  column c) is copied pixel by pixel into a buffer of its own: entry k of the cell, at
  cell coordinates (k mod cw, k div cw), is read from the sheet at
  (c * cw + k mod cw, r * ch + k div cw).
\<close>

definition copy_cell :: "raster_image \<Rightarrow> nat \<Rightarrow> nat \<Rightarrow> nat \<Rightarrow> nat \<Rightarrow> raster_image" where
  "copy_cell img cw ch r c =
     \<lparr>width = cw, height = ch,
      pixels = map (\<lambda>k. pixels img ! ((r * ch + k div cw) * width img + (c * cw + k mod cw)))
                 [0..<cw * ch]\<rparr>"

text \<open>
  Modelled from the spec: \<open>slice(image, layout)\<close> of section 4.2. It fails with
  DimensionError when the width is not evenly divisible by the columns or the height by
  the rows; otherwise slot number i (row-major, i = row * columns + column) holds a
  copy of the cell of size (width / columns, height / rows).
\<close>

definition slice :: "raster_image \<Rightarrow> grid_layout \<Rightarrow> image_error + sticker_slot list" where
  "slice img L =
     (if width img mod columns L \<noteq> 0 \<or> height img mod rows L \<noteq> 0 then Inl DimensionError
      else Inr (map (\<lambda>i. \<lparr>slot_image = copy_cell img (width img div columns L)
                                           (height img div rows L) (i div columns L) (i mod columns L),
                           originalIndex = i\<rparr>)
                    [0..<columns L * rows L]))"

section \<open>GridComposer\<close>

text \<open>Modelled from the spec: the fully transparent pixel that fills a new sheet buffer.\<close>

definition transparent :: pixel where
  "transparent = \<lparr>red = 0, green = 0, blue = 0, alpha = 0\<rparr>"

text \<open>
  Modelled from the spec: the per-cell copy of section 4.3. Every pixel k of the slot is
  written, unblended, into the sheet buffer (of row length W) at the position
  (x0 + k mod cw, y0 + k div cw).
\<close>

definition blit :: "nat \<Rightarrow> raster_image \<Rightarrow> nat \<Rightarrow> nat \<Rightarrow> pixel list \<Rightarrow> pixel list" where
  "blit W slot x0 y0 buf =
     fold (\<lambda>k b. b[(y0 + k div width slot) * W + (x0 + k mod width slot) := pixels slot ! k])
          [0..<width slot * height slot] buf"

text \<open>Modelled from the spec: the uniformity test of section 4.3. All slots share the
  width and height of the first one.\<close>

definition uniform_slots :: "raster_image list \<Rightarrow> bool" where
  "uniform_slots slots \<longleftrightarrow>
     (case slots of [] \<Rightarrow> True
      | s # rest \<Rightarrow> list_all (\<lambda>t. width t = width s \<and> height t = height s) rest)"

text \<open>
  Modelled from the spec: \<open>compose(slots, layout)\<close> of section 4.3. The shape check
  comes first; only then is a fully transparent buffer of size
  (cellWidth * columns, cellHeight * rows) allocated and each slot i copied to the cell at
  (column * cellWidth, row * cellHeight) with row = i div columns, column = i mod columns.
\<close>

definition compose :: "raster_image list \<Rightarrow> grid_layout \<Rightarrow> image_error + raster_image" where
  "compose slots L =
     (if length slots \<noteq> columns L * rows L \<or> \<not> uniform_slots slots then Inl ShapeMismatchError
      else
        let cw = (case slots of [] \<Rightarrow> 0 | s # _ \<Rightarrow> width s);
            ch = (case slots of [] \<Rightarrow> 0 | s # _ \<Rightarrow> height s);
            W = cw * columns L;
            H = ch * rows L
        in Inr \<lparr>width = W, height = H,
                pixels = fold (\<lambda>i. blit W (slots ! i) ((i mod columns L) * cw) ((i div columns L) * ch))
                              [0..<length slots] (replicate (W * H) transparent)\<rparr>)"

text \<open>
  The round trip of the specification's section 8, \<open>compose(slice(sheet, L), L)\<close>: the
  images of the slots, in slot order, are handed to the composer; an error of either
  step is the result.
\<close>

definition slice_then_compose :: "raster_image \<Rightarrow> grid_layout \<Rightarrow> image_error + raster_image" where
  "slice_then_compose sheet L =
     (case slice sheet L of Inl e \<Rightarrow> Inl e
      | Inr slots \<Rightarrow> compose (map slot_image slots) L)"

text \<open>
  The row-major number of the grid cell that holds buffer position p of a sheet with row
  length W and cells of size cw by ch (used to state the composer's loop invariant).
\<close>

definition cell_index :: "nat \<Rightarrow> nat \<Rightarrow> nat \<Rightarrow> nat \<Rightarrow> nat \<Rightarrow> nat" where
  "cell_index cw ch ncols W p = ((p div W) div ch) * ncols + (p mod W) div cw"

text \<open>Small concrete images and layouts on which the operations are evaluated.\<close>

definition shade :: "nat \<Rightarrow> pixel" where
  "shade n = \<lparr>red = of_nat n, green = of_nat (2 * n), blue = of_nat (3 * n), alpha = 255\<rparr>"

definition sheet_4x2 :: raster_image where
  "sheet_4x2 = \<lparr>width = 4, height = 2, pixels = map shade [1, 2, 3, 4, 5, 6, 7, 8]\<rparr>"

definition sheet_3x2 :: raster_image where
  "sheet_3x2 = \<lparr>width = 3, height = 2, pixels = map shade [1, 2, 3, 4, 5, 6]\<rparr>"

definition tile_1x1 :: "nat \<Rightarrow> raster_image" where
  "tile_1x1 n = \<lparr>width = 1, height = 1, pixels = [shade n]\<rparr>"

definition tile_2x1 :: "nat \<Rightarrow> raster_image" where
  "tile_2x1 n = \<lparr>width = 2, height = 1, pixels = [shade n, shade (n + 1)]\<rparr>"

definition layout_2x2 :: grid_layout where
  "layout_2x2 = \<lparr>columns = 2, rows = 2\<rparr>"

section \<open>ChromaKeyExtractor\<close>

text \<open>
  Modelled from the spec: the parameters of the extractor (\<^verbatim>\<open>processTransparentSheet\<close> in
  the application), which is part of the absent module as well. Section 4.1 of the
  specification fixes its structure: a colour distance from the key colour pure green
  (0, 255, 0), two thresholds that depend on the aggressiveness flag, alpha recomputed
  from the distance alone, and spill suppression on the soft band. Section 9 leaves the
  metric, the threshold values and the exact spill formula open, so these are the
  fields of a parameter record, and the properties below are proved for all values of
  the parameters.
\<close>

record extractor_params =
  distance :: "8 word \<Rightarrow> 8 word \<Rightarrow> 8 word \<Rightarrow> nat"
  innerThreshold :: "bool \<Rightarrow> nat"
  outerThreshold :: "bool \<Rightarrow> nat"
  despill :: "8 word \<Rightarrow> 8 word \<Rightarrow> 8 word \<Rightarrow> 8 word"

text \<open>Modelled from the spec: \<open>aggressive = true\<close> widens both thresholds (section 4.1).\<close>

definition widening :: "extractor_params \<Rightarrow> bool" where
  "widening P \<longleftrightarrow> innerThreshold P False \<le> innerThreshold P True
                 \<and> outerThreshold P False \<le> outerThreshold P True"

text \<open>Modelled from the spec: the three classes of section 4.1 and the distance of a
  pixel's colour from the key colour.\<close>

datatype pixel_class = Background | SoftEdge | Foreground

definition key_distance :: "extractor_params \<Rightarrow> pixel \<Rightarrow> nat" where
  "key_distance P p = distance P (red p) (green p) (blue p)"

text \<open>
  Modelled from the spec: the classification of section 4.1. A distance below the inner
  threshold is background, a distance above the outer threshold is foreground, anything
  between the two is the soft edge.
\<close>

definition classify :: "extractor_params \<Rightarrow> bool \<Rightarrow> pixel \<Rightarrow> pixel_class" where
  "classify P a p =
     (if key_distance P p < innerThreshold P a then Background
      else if outerThreshold P a < key_distance P p then Foreground
      else SoftEdge)"

text \<open>
  Modelled from the spec: the soft edge's alpha, linearly interpolated between 0 at the
  inner and 255 at the outer threshold (rounded down to a channel value).
\<close>

definition soft_alpha :: "extractor_params \<Rightarrow> bool \<Rightarrow> nat \<Rightarrow> 8 word" where
  "soft_alpha P a d =
     of_nat ((255 * (d - innerThreshold P a)) div (outerThreshold P a - innerThreshold P a))"

text \<open>
  Modelled from the spec: one pixel of \<open>extract\<close> (section 4.1). The alpha channel is
  replaced, never read: 0 for background, 255 with the colour unchanged for foreground,
  the interpolated value on the soft edge, where the green channel of a pixel that is
  not fully opaque is replaced by its despilled value.
\<close>

definition extract_pixel :: "extractor_params \<Rightarrow> bool \<Rightarrow> pixel \<Rightarrow> pixel" where
  "extract_pixel P a p =
     (case classify P a p of
        Background \<Rightarrow> p\<lparr>alpha := 0\<rparr>
      | Foreground \<Rightarrow> p\<lparr>alpha := 255\<rparr>
      | SoftEdge \<Rightarrow>
          let al = soft_alpha P a (key_distance P p)
          in if al = 255 then p\<lparr>alpha := 255\<rparr>
             else p\<lparr>green := despill P (red p) (green p) (blue p), alpha := al\<rparr>)"

text \<open>
  Modelled from the spec: \<open>extract(image, aggressive)\<close> of section 4.1, named
  \<open>extract_image\<close> here. It has no error result; the output is a new image of the same
  width and height.
\<close>

definition extract_image :: "extractor_params \<Rightarrow> raster_image \<Rightarrow> bool \<Rightarrow> raster_image" where
  "extract_image P img a = \<lparr>width = width img, height = height img,
                      pixels = map (extract_pixel P a) (pixels img)\<rparr>"

text \<open>Modelled from the spec: the measure of section 8's monotonic tolerance property,
  the fraction of an image's pixels that a pass classifies as background, and the
  fraction that it does not classify as foreground (removed fully or in part).\<close>

definition background_fraction :: "extractor_params \<Rightarrow> bool \<Rightarrow> raster_image \<Rightarrow> rat" where
  "background_fraction P a img =
     of_nat (length (filter (\<lambda>p. classify P a p = Background) (pixels img)))
       / of_nat (length (pixels img))"

definition keyed_fraction :: "extractor_params \<Rightarrow> bool \<Rightarrow> raster_image \<Rightarrow> rat" where
  "keyed_fraction P a img =
     of_nat (length (filter (\<lambda>p. classify P a p \<noteq> Foreground) (pixels img)))
       / of_nat (length (pixels img))"

text \<open>
  Modelled from the spec: one admissible choice of the parameters that the
  specification leaves open, used to evaluate the extractor on concrete pixels: a
  weighted squared Euclidean distance from (0, 255, 0) with green weighted lower than
  red and blue, thresholds 8000 and 30000 widened to 12000 and 45000, and a despill that
  lowers green to the average of red and blue.
\<close>

definition weighted_distance :: "8 word \<Rightarrow> 8 word \<Rightarrow> 8 word \<Rightarrow> nat" where
  "weighted_distance r g b =
     2 * (unat r * unat r) + (255 - unat g) * (255 - unat g) + 2 * (unat b * unat b)"

definition despill_to_average :: "8 word \<Rightarrow> 8 word \<Rightarrow> 8 word \<Rightarrow> 8 word" where
  "despill_to_average r g b =
     (if (unat r + unat b) div 2 < unat g then of_nat ((unat r + unat b) div 2) else g)"

definition reference_params :: extractor_params where
  "reference_params =
     \<lparr>distance = weighted_distance,
      innerThreshold = (\<lambda>a. if a then 12000 else 8000),
      outerThreshold = (\<lambda>a. if a then 45000 else 30000),
      despill = despill_to_average\<rparr>"

definition fringe_pixel :: pixel where
  "fringe_pixel = \<lparr>red = 60, green = 200, blue = 60, alpha = 255\<rparr>"

definition fringe_image :: raster_image where
  "fringe_image = \<lparr>width = 1, height = 1, pixels = [fringe_pixel]\<rparr>"

definition key_pixel :: pixel where
  "key_pixel = \<lparr>red = 0, green = 255, blue = 0, alpha = 255\<rparr>"

definition ink_pixel :: pixel where
  "ink_pixel = \<lparr>red = 200, green = 30, blue = 40, alpha = 255\<rparr>"

definition near_key_pixel :: pixel where
  "near_key_pixel = \<lparr>red = 50, green = 230, blue = 45, alpha = 255\<rparr>"

definition mixed_image :: raster_image where
  "mixed_image = \<lparr>width = 2, height = 2, pixels = [key_pixel, near_key_pixel, fringe_pixel, ink_pixel]\<rparr>"

section \<open>JavaScript strings\<close>

text \<open>
  A JavaScript string is a sequence of UTF-16 code units. ASCII literals of the source
  are written with \<open>js\<close>; the Thai literals are given by their code units.
\<close>

type_synonym jstring = "16 word list"

definition js :: "string \<Rightarrow> jstring" where
  "js s = map (\<lambda>c. of_nat (of_char c)) s"

text \<open>\<^verbatim>\<open>s.startsWith(t)\<close> and \<^verbatim>\<open>s.includes(t)\<close>.\<close>

fun starts_with :: "jstring \<Rightarrow> jstring \<Rightarrow> bool" where
  "starts_with s [] = True"
| "starts_with [] (c # t) = False"
| "starts_with (d # s) (c # t) = (d = c \<and> starts_with s t)"

fun js_includes :: "jstring \<Rightarrow> jstring \<Rightarrow> bool" where
  "js_includes [] t = (t = [])"
| "js_includes (d # s) t = (starts_with (d # s) t \<or> js_includes s t)"

text \<open>The decimal digits of a number, as a template literal prints it.\<close>

fun decimal :: "nat \<Rightarrow> jstring" where
  "decimal n = (if n < 10 then [of_nat (48 + n)] else decimal (n div 10) @ [of_nat (48 + n mod 10)])"

declare decimal.simps [simp del]

section \<open>The application state and the services it calls (src/App.tsx)\<close>

datatype ProcessingStep = Idle | Analyzing | Generating | Removing | Complete

definition STICKER_COLUMNS :: nat where "STICKER_COLUMNS = 4"
definition STICKER_ROWS :: nat where "STICKER_ROWS = 4"
definition TOTAL_STICKERS :: nat where "TOTAL_STICKERS = STICKER_COLUMNS * STICKER_ROWS"

text \<open>The interface \<^verbatim>\<open>StickerSlot\<close> of App.tsx: \<^verbatim>\<open>{ id, url, locked }\<close>.\<close>

record StickerSlot =
  slot_id :: jstring
  url :: jstring
  locked :: bool

text \<open>
  \<^verbatim>\<open>StickerSheetConfig\<close> and \<^verbatim>\<open>StickerStyle\<close> are declared in \<^verbatim>\<open>./types\<close>; their fields are those
  of the initial value in \<^verbatim>\<open>useState\<close>.
\<close>

datatype StickerStyle = Chibi_2D | Pixar_3D

record StickerSheetConfig =
  base64Image :: jstring
  sheet_size :: jstring
  aspectRatio :: jstring
  extraPrompt :: jstring
  style :: StickerStyle
  includeCaptions :: bool

text \<open>
  The React state of the component. The two counters that only drive the progress
  animation (\<^verbatim>\<open>simulatedStickerCount\<close>, \<^verbatim>\<open>isComplianceChecking\<close>) are left out: no handler
  modelled here reads them.
\<close>

record app_state =
  showKeyScreen :: "bool option"
  loading :: bool
  processingStep :: ProcessingStep
  error :: "jstring option"
  transparentImageUrl :: "jstring option"
  stickerSlots :: "StickerSlot list"
  hasGenerated :: bool
  isOnline :: bool
  generationTargetCount :: nat
  config :: StickerSheetConfig

definition initial_state :: "bool \<Rightarrow> app_state" where
  "initial_state online =
     \<lparr>showKeyScreen = None, loading = False, processingStep = Idle, error = None,
      transparentImageUrl = None, stickerSlots = [], hasGenerated = False, isOnline = online,
      generationTargetCount = TOTAL_STICKERS,
      config = \<lparr>base64Image = [], sheet_size = js ''1K'', aspectRatio = js ''1:1'',
                extraPrompt = [], style = Pixar_3D, includeCaptions = True\<rparr>\<rparr>"

text \<open>
  A value that reaches a \<^verbatim>\<open>catch\<close> block or rejects a promise, as far as the handlers
  look at it: \<^verbatim>\<open>null\<close> or \<^verbatim>\<open>undefined\<close>, on which reading \<^verbatim>\<open>err.message\<close> throws a
  TypeError, or any other value with its \<^verbatim>\<open>message\<close> (the empty string stands for a missing
  message, which \<^verbatim>\<open>||\<close> and \<^verbatim>\<open>?.\<close> treat like an empty one).
\<close>

datatype rejection = Nullish | Thrown jstring

text \<open>
  The asynchronous collaborators of \<^verbatim>\<open>generateSheet\<close>: the generation service and the three
  image functions, each resolving with a value (\<open>Inr\<close>) or rejecting (\<open>Inl\<close>), and the
  clock read by \<^verbatim>\<open>Date.now()\<close>.
\<close>

record services =
  generateStickerSheet :: "StickerSheetConfig \<Rightarrow> rejection + jstring"
  processTransparentSheet :: "jstring \<Rightarrow> bool \<Rightarrow> rejection + jstring"
  splitStickerSheet :: "jstring \<Rightarrow> nat \<Rightarrow> nat \<Rightarrow> rejection + jstring list"
  composeStickerSheet :: "jstring list \<Rightarrow> nat \<Rightarrow> nat \<Rightarrow> rejection + jstring"
  date_now :: nat

text \<open>
  What a run of \<^verbatim>\<open>generateSheet\<close> does, in program order: state setters, awaited waits and
  service calls, the two deferred callbacks, and the rejection of the handler's own
  promise when its \<^verbatim>\<open>catch\<close> block throws.
\<close>

datatype effect =
    SetError "jstring option"
  | SetGenerationTargetCount nat
  | SetLoading bool
  | SetProcessingStep ProcessingStep
  | SetStickerSlots "StickerSlot list"
  | SetTransparentImageUrl "jstring option"
  | SetHasGenerated bool
  | Wait nat
  | CallGenerateStickerSheet StickerSheetConfig
  | CallProcessTransparentSheet jstring bool
  | CallSplitStickerSheet jstring nat nat
  | CallComposeStickerSheet "jstring list" nat nat
  | ScheduleScrollToResult
  | ScheduleShowKeyScreen
  | RejectTypeError

definition offline_message :: jstring where
  "offline_message = js ''You are offline. Please connect to the internet and try again.''"

definition no_image_message :: jstring where
  "no_image_message = js ''Please upload a source image first.''"

text \<open>The Thai message of line 150 (select at least one unlocked sticker before Regenerate).\<close>

definition all_locked_message :: jstring where
  "all_locked_message =
     [0x0E40, 0x0E25, 0x0E37, 0x0E2D, 0x0E01, 0x0E2D, 0x0E22, 0x0E48, 0x0E32, 0x0E07,
      0x0E19, 0x0E49, 0x0E2D, 0x0E22, 0x0020, 0x0031, 0x0020, 0x0E2A, 0x0E15,
      0x0E34, 0x0E4A, 0x0E01, 0x0E40, 0x0E01, 0x0E2D, 0x0E23, 0x0E4C, 0x0E17,
      0x0E35, 0x0E48, 0x0E22, 0x0E31, 0x0E07, 0x0E44, 0x0E21, 0x0E48, 0x0E25,
      0x0E47, 0x0E2D, 0x0E01, 0x0E01, 0x0E48, 0x0E2D, 0x0E19, 0x0E01, 0x0E14,
      0x0020, 0x0052, 0x0065, 0x0067, 0x0065, 0x006E, 0x0065, 0x0072, 0x0061,
      0x0074, 0x0065]"

definition incomplete_message :: jstring where
  "incomplete_message = js ''Generated sheet is incomplete. Please try again.''"

text \<open>The template literal \<^verbatim>\<open>`${now}-${index}`\<close>.\<close>

definition fresh_id :: "nat \<Rightarrow> nat \<Rightarrow> jstring" where
  "fresh_id now index = decimal now @ js ''-'' @ decimal index"

text \<open>
  The merge of lines 174 to 184. With a full prior set, a locked slot is kept as it is
  and an unlocked one takes the regenerated url of its index and a fresh id; without
  one, the first TOTAL_STICKERS regenerated urls become unlocked slots. The merge runs
  only after the length test of line 169, so \<^verbatim>\<open>regeneratedStickers[index]\<close> is read in
  range for each of the 16 prior slots.
\<close>

definition merge_slots :: "bool \<Rightarrow> StickerSlot list \<Rightarrow> jstring list \<Rightarrow> nat \<Rightarrow> StickerSlot list" where
  "merge_slots canReuseExisting slots regeneratedStickers now =
     (if canReuseExisting
      then map (\<lambda>(index, slot).
                  if locked slot then slot
                  else slot\<lparr>url := regeneratedStickers ! index, slot_id := fresh_id now index\<rparr>)
               (zip [0..<length slots] slots)
      else map (\<lambda>(index, u). \<lparr>slot_id = fresh_id now index, url = u, locked = False\<rparr>)
               (zip [0..<length (take TOTAL_STICKERS regeneratedStickers)]
                    (take TOTAL_STICKERS regeneratedStickers)))"

text \<open>
  The \<^verbatim>\<open>try\<close> block of lines 159 to 203: the effects performed and, if an awaited call
  rejected or the block threw, the value that reaches \<^verbatim>\<open>catch\<close>.
\<close>

definition try_block :: "services \<Rightarrow> app_state \<Rightarrow> bool \<Rightarrow> effect list \<times> rejection option" where
  "try_block S st canReuseExisting =
     (let e1 = [Wait 650, SetProcessingStep Generating, CallGenerateStickerSheet (config st)]
      in case generateStickerSheet S (config st) of
           Inl err \<Rightarrow> (e1, Some err)
         | Inr stickerSheetUrl \<Rightarrow>
      let e2 = e1 @ [SetProcessingStep Removing, Wait 300,
                     CallProcessTransparentSheet stickerSheetUrl True]
      in case processTransparentSheet S stickerSheetUrl True of
           Inl err \<Rightarrow> (e2, Some err)
         | Inr processedUrl \<Rightarrow>
      let e3 = e2 @ [CallSplitStickerSheet processedUrl STICKER_COLUMNS STICKER_ROWS]
      in case splitStickerSheet S processedUrl STICKER_COLUMNS STICKER_ROWS of
           Inl err \<Rightarrow> (e3, Some err)
         | Inr regeneratedStickers \<Rightarrow>
      if length regeneratedStickers < TOTAL_STICKERS then (e3, Some (Thrown incomplete_message))
      else
      let mergedSlots = merge_slots canReuseExisting (stickerSlots st) regeneratedStickers (date_now S);
          e4 = e3 @ [CallComposeStickerSheet (map url mergedSlots) STICKER_COLUMNS STICKER_ROWS]
      in case composeStickerSheet S (map url mergedSlots) STICKER_COLUMNS STICKER_ROWS of
           Inl err \<Rightarrow> (e4, Some err)
         | Inr composedSheetUrl \<Rightarrow>
             (e4 @ [SetStickerSlots mergedSlots, SetTransparentImageUrl (Some composedSheetUrl),
                    SetHasGenerated True, SetProcessingStep Complete, ScheduleScrollToResult],
              None))"

text \<open>The \<^verbatim>\<open>catch\<close> block of lines 204 to 208, for a caught value whose \<^verbatim>\<open>message\<close> can
  be read.\<close>

definition catch_block :: "jstring \<Rightarrow> effect list" where
  "catch_block message =
     SetError (Some (if message = [] then js ''Failed to generate sticker set.'' else message))
     # (if js_includes message (js ''403'') \<or> js_includes message (js ''500'')
           \<or> js_includes message (js ''key'')
        then [ScheduleShowKeyScreen] else [])"

text \<open>The \<^verbatim>\<open>finally\<close> block of lines 209 to 213.\<close>

definition finally_block :: "effect list" where
  "finally_block = [SetLoading False, SetProcessingStep Idle,
                    SetGenerationTargetCount TOTAL_STICKERS]"

text \<open>
  What follows a \<^verbatim>\<open>try\<close> block that threw. A caught value with a readable message runs
  the \<^verbatim>\<open>catch\<close> block and then \<^verbatim>\<open>finally\<close>. On \<^verbatim>\<open>null\<close> or \<^verbatim>\<open>undefined\<close> the first
  statement of the \<^verbatim>\<open>catch\<close> block (\<^verbatim>\<open>err.message\<close>, line 205) throws before \<^verbatim>\<open>setError\<close> is
  called: \<^verbatim>\<open>finally\<close> runs and the TypeError rejects the promise of \<^verbatim>\<open>generateSheet\<close>.
\<close>

definition catch_finally :: "rejection \<Rightarrow> effect list" where
  "catch_finally err =
     (case err of
        Thrown message \<Rightarrow> catch_block message @ finally_block
      | Nullish \<Rightarrow> finally_block @ [RejectTypeError])"

text \<open>
  \<^verbatim>\<open>generateSheet\<close> (lines 133 to 214), run to completion from the state the handler
  closed over: the three guards, the four setters before \<^verbatim>\<open>try\<close>, the \<^verbatim>\<open>try\<close> block, and
  after it \<^verbatim>\<open>finally\<close> alone or \<^verbatim>\<open>catch\<close> and \<^verbatim>\<open>finally\<close>.
\<close>

definition generateSheet :: "services \<Rightarrow> app_state \<Rightarrow> effect list" where
  "generateSheet S st =
     (if \<not> isOnline st then [SetError (Some offline_message)]
      else if base64Image (config st) = [] then [SetError (Some no_image_message)]
      else
        let canReuseExisting = (length (stickerSlots st) = TOTAL_STICKERS);
            unlockedCount = (if canReuseExisting
                             then length (filter (\<lambda>slot. \<not> locked slot) (stickerSlots st))
                             else TOTAL_STICKERS)
        in if canReuseExisting \<and> unlockedCount = 0 then [SetError (Some all_locked_message)]
           else [SetGenerationTargetCount unlockedCount, SetLoading True,
                 SetProcessingStep Analyzing, SetError None]
                @ (case try_block S st canReuseExisting of
                     (effects, None) \<Rightarrow> effects @ finally_block
                   | (effects, Some err) \<Rightarrow> effects @ catch_finally err))"

text \<open>The state after a run: every setter applied in order. The deferred
  \<^verbatim>\<open>setShowKeyScreen(true)\<close> is applied as well; waits, calls, scrolling and the rejection
  leave the state.\<close>

fun apply_effect :: "effect \<Rightarrow> app_state \<Rightarrow> app_state" where
  "apply_effect (SetError e) st = st\<lparr>error := e\<rparr>"
| "apply_effect (SetGenerationTargetCount n) st = st\<lparr>generationTargetCount := n\<rparr>"
| "apply_effect (SetLoading b) st = st\<lparr>loading := b\<rparr>"
| "apply_effect (SetProcessingStep p) st = st\<lparr>processingStep := p\<rparr>"
| "apply_effect (SetStickerSlots slots) st = st\<lparr>stickerSlots := slots\<rparr>"
| "apply_effect (SetTransparentImageUrl u) st = st\<lparr>transparentImageUrl := u\<rparr>"
| "apply_effect (SetHasGenerated b) st = st\<lparr>hasGenerated := b\<rparr>"
| "apply_effect ScheduleShowKeyScreen st = st\<lparr>showKeyScreen := Some True\<rparr>"
| "apply_effect _ st = st"

definition run_effects :: "effect list \<Rightarrow> app_state \<Rightarrow> app_state" where
  "run_effects effects st = fold apply_effect effects st"

text \<open>The calls to the four collaborators in a run, and the pipeline stage of each.\<close>

datatype stage = Generation | Extraction | Slicing | Composition

fun stage_of :: "effect \<Rightarrow> stage option" where
  "stage_of (CallGenerateStickerSheet c) = Some Generation"
| "stage_of (CallProcessTransparentSheet u a) = Some Extraction"
| "stage_of (CallSplitStickerSheet u c r) = Some Slicing"
| "stage_of (CallComposeStickerSheet us c r) = Some Composition"
| "stage_of _ = None"

definition service_calls :: "effect list \<Rightarrow> effect list" where
  "service_calls effects = filter (\<lambda>e. stage_of e \<noteq> None) effects"

text \<open>\<^verbatim>\<open>toggleStickerLock\<close> (lines 216 to 225).\<close>

definition toggleStickerLock :: "nat \<Rightarrow> app_state \<Rightarrow> app_state" where
  "toggleStickerLock index st =
     st\<lparr>stickerSlots := map (\<lambda>(slotIndex, slot).
                               if slotIndex = index then slot\<lparr>locked := \<not> locked slot\<rparr> else slot)
                            (zip [0..<length (stickerSlots st)] (stickerSlots st)),
        error := None\<rparr>"

text \<open>
  \<^verbatim>\<open>handleImageUpload\<close> (lines 105 to 127) with the reader's callback: no file, a file of a
  MIME type, and the reader's result (a data URL, or none when reading failed).
\<close>

datatype upload = NoFile | File jstring "jstring option"

definition handleImageUpload :: "upload \<Rightarrow> app_state \<Rightarrow> app_state" where
  "handleImageUpload u st =
     (case u of
        NoFile \<Rightarrow> st
      | File mime result \<Rightarrow>
          if \<not> starts_with mime (js ''image/'')
          then st\<lparr>error := Some (js ''Please upload an image file only.'')\<rparr>
          else (case result of
                  None \<Rightarrow> st
                | Some data \<Rightarrow>
                    st\<lparr>config := (config st)\<lparr>base64Image := data\<rparr>, hasGenerated := False,
                       transparentImageUrl := None, stickerSlots := [],
                       generationTargetCount := TOTAL_STICKERS, error := None\<rparr>))"

text \<open>The \<^verbatim>\<open>disabled\<close> attribute of the generate button (lines 467 to 472).\<close>

definition lockedCount :: "app_state \<Rightarrow> nat" where
  "lockedCount st = length (filter locked (stickerSlots st))"

definition generate_button_disabled :: "app_state \<Rightarrow> bool" where
  "generate_button_disabled st \<longleftrightarrow>
     loading st \<or> base64Image (config st) = [] \<or> \<not> isOnline st
     \<or> (hasGenerated st \<and> length (stickerSlots st) = TOTAL_STICKERS
         \<and> lockedCount st = TOTAL_STICKERS)"

text \<open>
  Between two awaits the setters of a run are applied as one batch; at an await (a wait
  or a call of a collaborator) the run is suspended and other handlers may run.
\<close>

fun is_await :: "effect \<Rightarrow> bool" where
  "is_await (Wait ms) = True"
| "is_await (CallGenerateStickerSheet c) = True"
| "is_await (CallProcessTransparentSheet u a) = True"
| "is_await (CallSplitStickerSheet u c r) = True"
| "is_await (CallComposeStickerSheet us c r) = True"
| "is_await _ = False"

fun batches :: "effect list \<Rightarrow> effect list list" where
  "batches [] = [[]]"
| "batches (e # es) =
     (if is_await e then [] # batches es
      else (case batches es of [] \<Rightarrow> [[e]] | b # bs \<Rightarrow> (e # b) # bs))"

text \<open>
  The states the component can be in: the initial one, and those that the handlers
  produce from a reachable state (connectivity events, the key screen, uploads, the
  controls that edit the configuration, lock toggles, and the batches of
  \<^verbatim>\<open>generateSheet\<close>). A run of \<^verbatim>\<open>generateSheet\<close> reads the state it was started in (\<open>st0\<close>,
  the values its closure holds) and applies each batch to the state at that later
  moment (\<open>st\<close>), against any behaviour of the services.
\<close>

inductive reachable :: "app_state \<Rightarrow> bool" where
  r_init: "reachable (initial_state online)"
| r_online: "reachable st \<Longrightarrow> reachable (st\<lparr>isOnline := b\<rparr>)"
| r_key_screen: "reachable st \<Longrightarrow> reachable (st\<lparr>showKeyScreen := Some b\<rparr>)"
| r_upload: "reachable st \<Longrightarrow> reachable (handleImageUpload u st)"
| r_style: "reachable st \<Longrightarrow> reachable (st\<lparr>config := (config st)\<lparr>style := s\<rparr>\<rparr>)"
| r_prompt: "reachable st \<Longrightarrow> reachable (st\<lparr>config := (config st)\<lparr>extraPrompt := t\<rparr>\<rparr>)"
| r_captions: "reachable st \<Longrightarrow> reachable (st\<lparr>config := (config st)\<lparr>includeCaptions := b\<rparr>\<rparr>)"
| r_toggle: "reachable st \<Longrightarrow> reachable (toggleStickerLock index st)"
| r_generate: "reachable st0 \<Longrightarrow> reachable st \<Longrightarrow> batch \<in> set (batches (generateSheet S st0))
                \<Longrightarrow> reachable (run_effects batch st)"

text \<open>A batch that sets neither the slots nor \<^verbatim>\<open>hasGenerated\<close>.\<close>

definition keeps_slots :: "effect list \<Rightarrow> bool" where
  "keeps_slots b \<longleftrightarrow> (\<forall>e\<in>set b. (\<forall>m. e \<noteq> SetStickerSlots m) \<and> (\<forall>x. e \<noteq> SetHasGenerated x))"

text \<open>The three guards at the head of \<^verbatim>\<open>generateSheet\<close> let the run proceed.\<close>

definition guards_pass :: "app_state \<Rightarrow> bool" where
  "guards_pass st \<longleftrightarrow> isOnline st \<and> base64Image (config st) \<noteq> []
     \<and> \<not> (length (stickerSlots st) = TOTAL_STICKERS \<and> (\<forall>slot\<in>set (stickerSlots st). locked slot))"

text \<open>Concrete services and states on which \<^verbatim>\<open>generateSheet\<close> is evaluated: an upload,
  a first successful generation, all sixteen slots locked, and slots 0 and 5 locked.\<close>

definition demo_urls :: "jstring list" where
  "demo_urls = map (\<lambda>i. js ''new-'' @ decimal i) [0..<16]"

definition demo_services :: services where
  "demo_services =
     \<lparr>generateStickerSheet = (\<lambda>c. Inr (js ''sheet'')),
      processTransparentSheet = (\<lambda>u a. Inr (js ''clean'')),
      splitStickerSheet = (\<lambda>u c r. Inr demo_urls),
      composeStickerSheet = (\<lambda>us c r. Inr (js ''composed'')),
      date_now = 1700000000000\<rparr>"

definition short_services :: services where
  "short_services = demo_services\<lparr>splitStickerSheet := (\<lambda>u c r. Inr (take 15 demo_urls))\<rparr>"

definition uploaded_state :: app_state where
  "uploaded_state =
     handleImageUpload (File (js ''image/png'') (Some (js ''data:image/png;base64,AAAA'')))
       (initial_state True)"

definition generated_state :: app_state where
  "generated_state = run_effects (generateSheet demo_services uploaded_state) uploaded_state"

definition locked_state :: app_state where
  "locked_state = fold toggleStickerLock [0..<16] generated_state"

definition half_locked_state :: app_state where
  "half_locked_state = fold toggleStickerLock [0, 5] generated_state"

section \<open>The caption service (src/services/geminiService.ts)\<close>

text \<open>A value produced by \<^verbatim>\<open>JSON.parse\<close>. Only strings and arrays are inspected.\<close>

datatype json =
    JNull
  | JBool bool
  | JNumber rat
  | JString jstring
  | JArray "json list"
  | JObject "(jstring \<times> json) list"

text \<open>
  The outcome of \<^verbatim>\<open>await ai.models.generateContent(...)\<close> followed by reading
  \<^verbatim>\<open>response.text\<close>: the call rejects, or it answers with a text that may be undefined.
\<close>

datatype model_response = Rejects | Responds "jstring option"

text \<open>\<^verbatim>\<open>String.prototype.trim\<close> strips the white space and line terminator code units of
  ECMAScript from both ends.\<close>

definition is_js_space :: "16 word \<Rightarrow> bool" where
  "is_js_space c \<longleftrightarrow>
     c \<in> {0x0009, 0x000A, 0x000B, 0x000C, 0x000D, 0x0020, 0x00A0, 0x1680,
           0x2028, 0x2029, 0x202F, 0x205F, 0x3000, 0xFEFF}
     \<or> (0x2000 \<le> c \<and> c \<le> 0x200A)"

definition trim :: "jstring \<Rightarrow> jstring" where
  "trim s = rev (dropWhile is_js_space (rev (dropWhile is_js_space s)))"

text \<open>The sixteen default captions (line 46; the literal of the \<^verbatim>\<open>catch\<close> block on line 60
  is the same list).\<close>

definition defaultCaptions :: "jstring list" where
  "defaultCaptions =
     [[0x0E2B, 0x0E27, 0x0E31, 0x0E14, 0x0E14, 0x0E35, 0x0E08, 0x0E49, 0x0E32],
      [0x0E02, 0x0E2D, 0x0E1A, 0x0E04, 0x0E38, 0x0E13, 0x0E19, 0x0E30],
      [0x0E42, 0x0E2D, 0x0E40, 0x0E04, 0x0E40, 0x0E25, 0x0E22],
      [0x0E2A, 0x0E39, 0x0E49, 0x0E46, 0x0020, 0x0E19, 0x0E30],
      [0x0E02, 0x0E2D, 0x0E42, 0x0E17, 0x0E29, 0x0E17, 0x0E35],
      [0x0E40, 0x0E22, 0x0E49, 0x0E46, 0x0E46],
      [0x0E22, 0x0E38, 0x0E48, 0x0E07, 0x0E21, 0x0E32, 0x0E01],
      [0x0E23, 0x0E31, 0x0E01, 0x0E19, 0x0E49, 0x0E32, 0x0E32],
      [0x0E07, 0x0E2D, 0x0E19, 0x0E41, 0x0E25, 0x0E49, 0x0E27],
      [0x0E15, 0x0E01, 0x0E43, 0x0E08, 0x0E40, 0x0E25, 0x0E22],
      [0x0E04, 0x0E34, 0x0E14, 0x0E41, 0x0E1B, 0x0E4A, 0x0E1A],
      [0x0E1D, 0x0E31, 0x0E19, 0x0E14, 0x0E35, 0x0E19, 0x0E30],
      [0x0E17, 0x0E33, 0x0E07, 0x0E32, 0x0E19, 0x0E2D, 0x0E22, 0x0E39, 0x0E48],
      [0x0E2B, 0x0E34, 0x0E27, 0x0E21, 0x0E32, 0x0E01],
      [0x0E23, 0x0E2D, 0x0E41, 0x0E1B, 0x0E4A, 0x0E1A],
      [0x0E1A, 0x0E32, 0x0E22, 0x0E08, 0x0E49, 0x0E32]]"

text \<open>The elements of a parsed array that pass \<^verbatim>\<open>typeof item === 'string'\<close>.\<close>

fun string_items :: "json list \<Rightarrow> jstring list" where
  "string_items [] = []"
| "string_items (JString s # items) = s # string_items items"
| "string_items (_ # items) = string_items items"

text \<open>
  The \<^verbatim>\<open>try\<close> statement of \<^verbatim>\<open>generateStickerCaptions\<close> (lines 33 to 61) and the list it
  returns. The model call and \<^verbatim>\<open>JSON.parse\<close> are parameters: \<open>generateContent\<close> maps the
  theme placed in the prompt (\<^verbatim>\<open>theme || 'friendly character'\<close>; the rest of the prompt is
  a fixed template) to the outcome of the call, and \<open>parse\<close> returns \<open>None\<close> where
  \<^verbatim>\<open>JSON.parse\<close> throws. Every outcome inside the \<^verbatim>\<open>try\<close> block is a branch, and the
  \<^verbatim>\<open>catch\<close> block returns the default list for each throw.
\<close>

definition try_captions ::
  "(jstring \<Rightarrow> model_response) \<Rightarrow> (jstring \<Rightarrow> json option) \<Rightarrow> jstring \<Rightarrow> jstring list" where
  "try_captions generateContent parse theme =
     (case generateContent (if theme = [] then js ''friendly character'' else theme) of
        Rejects \<Rightarrow> defaultCaptions
      | Responds None \<Rightarrow> defaultCaptions
      | Responds (Some text) \<Rightarrow>
          if text = [] then defaultCaptions
          else (case parse text of
                  None \<Rightarrow> defaultCaptions
                | Some (JArray parsed) \<Rightarrow>
                    let sanitized = take 16 (filter (\<lambda>item. 0 < length item)
                                               (map trim (string_items parsed)))
                    in if length sanitized = 16 then sanitized
                       else sanitized @ drop (length sanitized) (take 16 defaultCaptions)
                | Some _ \<Rightarrow> defaultCaptions))"

text \<open>
  \<^verbatim>\<open>generateStickerCaptions\<close> (lines 14 to 62). The client object is built on line 15,
  before the \<^verbatim>\<open>try\<close> statement of line 33, so an error thrown there (the constructor
  refusing a missing API key, say) is not caught: the promise rejects with it
  (\<open>Inl\<close>). \<open>newClient\<close> is the outcome of line 15, \<open>None\<close> when the client is
  constructed and \<open>Some err\<close> when \<open>err\<close> is thrown. With a client the promise
  resolves (\<open>Inr\<close>) with the list of the \<^verbatim>\<open>try\<close> statement; the prompt string of lines 18
  to 31 is a template literal over strings and does not throw.
\<close>

definition generateStickerCaptions ::
  "rejection option \<Rightarrow> (jstring \<Rightarrow> model_response) \<Rightarrow> (jstring \<Rightarrow> json option) \<Rightarrow> jstring
     \<Rightarrow> rejection + jstring list" where
  "generateStickerCaptions newClient generateContent parse theme =
     (case newClient of
        Some err \<Rightarrow> Inl err
      | None \<Rightarrow> Inr (try_captions generateContent parse theme))"

text \<open>A model answer and a parser on which the function is evaluated: an array of the
  string "hi", a blank string and a number.\<close>

definition demo_model :: "jstring \<Rightarrow> model_response" where
  "demo_model theme = Responds (Some (js ''answer''))"

definition demo_parse :: "jstring \<Rightarrow> json option" where
  "demo_parse text = Some (JArray [JString (js '' hi ''), JString (js ''  ''), JNumber 7])"

text \<open>The padding step of lines 57 and 58, named for the proofs.\<close>

definition pad_captions :: "jstring list \<Rightarrow> jstring list" where
  "pad_captions sanitized =
     (if length sanitized = 16 then sanitized
      else sanitized @ drop (length sanitized) (take 16 defaultCaptions))"

section \<open>Properties of the slicer and the composer\<close>

lemma copy_cell_dims:
  "width (copy_cell img cw ch r c) = cw" "height (copy_cell img cw ch r c) = ch"
  "length (pixels (copy_cell img cw ch r c)) = cw * ch"
  by (simp_all add: copy_cell_def)

lemma copy_cell_pixel:
  assumes "x < cw" "y < ch"
  shows "pixels (copy_cell img cw ch r c) ! (y * cw + x)
         = pixels img ! ((r * ch + y) * width img + (c * cw + x))"
proof -
  have "y + 1 \<le> ch" using assms(2) by simp
  then have "(y + 1) * cw \<le> ch * cw" by (rule mult_le_mono1)
  then have "y * cw + x < cw * ch" using assms(1) by (simp add: algebra_simps)
  then show ?thesis using assms(1) by (simp add: copy_cell_def)
qed

text \<open>A loop of single-position writes keeps the buffer's length, and leaves position p
  equal to the reference buffer s when every write copies from s and p either agreed
  before or is one of the written positions.\<close>

lemma fold_update_length:
  "length (fold (\<lambda>k b. b[f k := g k]) ks buf) = length buf"
  by (induction ks arbitrary: buf) simp_all

lemma fold_update_agree:
  "\<forall>k\<in>set ks. g k = s ! f k \<Longrightarrow> p < length buf \<Longrightarrow> buf ! p = s ! p \<or> p \<in> f ` set ks
   \<Longrightarrow> fold (\<lambda>k b. b[f k := g k]) ks buf ! p = s ! p"
proof (induction ks arbitrary: buf)
  case Nil
  then show ?case by simp
next
  case (Cons k ks)
  let ?b = "buf[f k := g k]"
  have len: "p < length ?b" using Cons.prems(2) by simp
  have "?b ! p = s ! p \<or> p \<in> f ` set ks"
  proof (cases "p = f k")
    case True
    then show ?thesis using Cons.prems(1,2) by simp
  next
    case False
    then show ?thesis using Cons.prems(3) by auto
  qed
  moreover have "\<forall>k\<in>set ks. g k = s ! f k" using Cons.prems(1) by simp
  ultimately have "fold (\<lambda>k b. b[f k := g k]) ks ?b ! p = s ! p"
    using Cons.IH len by blast
  then show ?case by simp
qed

lemma cell_offset_covers:
  fixes cw ch ncols p :: nat
  assumes "0 < cw" "0 < ch"
  defines "W \<equiv> cw * ncols"
  defines "x \<equiv> p mod W" and "y \<equiv> p div W"
  assumes "0 < ncols"
  shows "\<exists>k<cw * ch. ((y div ch) * ch + k div cw) * W + ((x div cw) * cw + k mod cw) = p"
proof (intro exI conjI)
  let ?k = "(y mod ch) * cw + x mod cw"
  have "x mod cw < cw" using assms by simp
  have "y mod ch < ch" using assms by simp
  then have "y mod ch + 1 \<le> ch" by simp
  then have "(y mod ch + 1) * cw \<le> ch * cw" by (rule mult_le_mono1)
  then show "?k < cw * ch" using \<open>x mod cw < cw\<close> by (simp add: algebra_simps)
  have d: "?k div cw = y mod ch" using \<open>0 < cw\<close> by simp
  have m: "?k mod cw = x mod cw" by simp
  have "((y div ch) * ch + ?k div cw) = y" unfolding d by simp
  moreover have "((x div cw) * cw + ?k mod cw) = x" unfolding m by simp
  ultimately show "((y div ch) * ch + ?k div cw) * W + ((x div cw) * cw + ?k mod cw) = p"
    unfolding x_def y_def by simp
qed

lemma cell_offset_bound:
  fixes cw ch ncols nrows r c k :: nat
  assumes "k < cw * ch" "r < nrows" "c < ncols"
  shows "(r * ch + k div cw) * (cw * ncols) + (c * cw + k mod cw) < cw * ncols * (ch * nrows)"
proof -
  have cw: "0 < cw" using assms(1) by (cases cw) auto
  have "k mod cw < cw" using cw by simp
  moreover have "(c + 1) * cw \<le> ncols * cw" using assms(3) by (intro mult_le_mono1) simp
  ultimately have x: "c * cw + k mod cw < cw * ncols" by (simp add: algebra_simps)
  have "k div cw < ch" using assms(1) cw by (simp add: less_mult_imp_div_less mult.commute)
  moreover have "(r + 1) * ch \<le> nrows * ch" using assms(2) by (intro mult_le_mono1) simp
  ultimately have y: "r * ch + k div cw + 1 \<le> ch * nrows" by (simp add: algebra_simps)
  have "(r * ch + k div cw) * (cw * ncols) + (c * cw + k mod cw) < (r * ch + k div cw + 1) * (cw * ncols)"
    using x by simp
  also have "\<dots> \<le> (ch * nrows) * (cw * ncols)" using y by (rule mult_le_mono1)
  finally show ?thesis by (simp add: mult.commute)
qed


lemma blit_length: "length (blit W slot x0 y0 buf) = length buf"
  by (simp add: blit_def fold_update_length)

lemma blit_copy_cell_agree:
  assumes W: "width sheet = cw * ncols" and rc: "r < nrows" "c < ncols"
    and len: "length buf = cw * ncols * (ch * nrows)"
    and p: "p < length buf"
    and pre: "buf ! p = pixels sheet ! p \<or> cell_index cw ch ncols (cw * ncols) p = r * ncols + c"
  shows "blit (cw * ncols) (copy_cell sheet cw ch r c) (c * cw) (r * ch) buf ! p = pixels sheet ! p"
proof -
  let ?f = "\<lambda>k. (r * ch + k div cw) * (cw * ncols) + (c * cw + k mod cw)"
  let ?g = "\<lambda>k. pixels (copy_cell sheet cw ch r c) ! k"
  have g: "\<forall>k\<in>set [0..<cw * ch]. ?g k = pixels sheet ! ?f k"
    by (simp add: copy_cell_def W)
  have cov: "buf ! p = pixels sheet ! p \<or> p \<in> ?f ` set [0..<cw * ch]"
  proof (cases "buf ! p = pixels sheet ! p")
    case True
    then show ?thesis by simp
  next
    case False
    then have ci: "cell_index cw ch ncols (cw * ncols) p = r * ncols + c" using pre by simp
    have pos: "0 < cw" "0 < ch" "0 < ncols" using p len by (auto intro: Nat.gr0I)
    let ?x = "p mod (cw * ncols)" and ?y = "p div (cw * ncols)"
    have "?x < cw * ncols" using pos by simp
    then have xc: "?x div cw < ncols" using pos by (simp add: less_mult_imp_div_less mult.commute)
    have "(?y div ch) * ncols + ?x div cw = r * ncols + c" using ci by (simp add: cell_index_def)
    then have "((?y div ch) * ncols + ?x div cw) div ncols = (r * ncols + c) div ncols"
      and "((?y div ch) * ncols + ?x div cw) mod ncols = (r * ncols + c) mod ncols" by simp_all
    then have r: "?y div ch = r" and c: "?x div cw = c" using xc rc(2) pos by simp_all
    obtain k where "k < cw * ch"
      "((?y div ch) * ch + k div cw) * (cw * ncols) + ((?x div cw) * cw + k mod cw) = p"
      using cell_offset_covers [OF pos(1,2,3), of p] by blast
    then have "k \<in> set [0..<cw * ch]" "?f k = p" using r c by simp_all
    then show ?thesis by blast
  qed
  have "fold (\<lambda>k b. b[?f k := ?g k]) [0..<cw * ch] buf ! p = pixels sheet ! p"
    using g p cov by (rule fold_update_agree)
  then show ?thesis by (simp add: blit_def copy_cell_dims)
qed


lemma cell_index_bound:
  assumes "p < cw * ncols * (ch * nrows)"
  shows "cell_index cw ch ncols (cw * ncols) p < ncols * nrows"
proof -
  have pos: "0 < cw" "0 < ch" "0 < ncols" "0 < nrows" using assms by (auto intro: Nat.gr0I)
  let ?x = "p mod (cw * ncols)" and ?y = "p div (cw * ncols)"
  have "?x < cw * ncols" using pos by simp
  then have xc: "?x div cw < ncols" using pos by (simp add: less_mult_imp_div_less mult.commute)
  have "?y < ch * nrows" using assms pos by (simp add: less_mult_imp_div_less mult.commute)
  then have "?y div ch < nrows" using pos by (simp add: less_mult_imp_div_less mult.commute)
  then have "?y div ch + 1 \<le> nrows" by simp
  then have "(?y div ch + 1) * ncols \<le> nrows * ncols" by (rule mult_le_mono1)
  then show ?thesis using xc by (simp add: cell_index_def algebra_simps)
qed

lemma compose_fold_agree:
  assumes W: "width sheet = cw * ncols"
    and slots: "\<forall>i<ncols * nrows. slots ! i = copy_cell sheet cw ch (i div ncols) (i mod ncols)"
  shows "\<forall>i\<in>set cells. i < ncols * nrows \<Longrightarrow> length buf = cw * ncols * (ch * nrows)
    \<Longrightarrow> p < length buf
    \<Longrightarrow> buf ! p = pixels sheet ! p \<or> cell_index cw ch ncols (cw * ncols) p \<in> set cells
    \<Longrightarrow> fold (\<lambda>i. blit (cw * ncols) (slots ! i) ((i mod ncols) * cw) ((i div ncols) * ch)) cells buf ! p
        = pixels sheet ! p"
proof (induction cells arbitrary: buf)
  case Nil
  then show ?case by simp
next
  case (Cons i cells)
  let ?b = "blit (cw * ncols) (slots ! i) ((i mod ncols) * cw) ((i div ncols) * ch) buf"
  have i: "i < ncols * nrows" using Cons.prems(1) by simp
  then have nc: "0 < ncols" by (auto intro: Nat.gr0I)
  have rc: "i div ncols < nrows" "i mod ncols < ncols"
    using i nc by (simp_all add: less_mult_imp_div_less mult.commute)
  have sl: "slots ! i = copy_cell sheet cw ch (i div ncols) (i mod ncols)" using slots i by simp
  have len: "length ?b = cw * ncols * (ch * nrows)" using Cons.prems(2) by (simp add: blit_length)
  have p: "p < length ?b" using Cons.prems(3) by (simp add: blit_length)
  have "?b ! p = pixels sheet ! p \<or> cell_index cw ch ncols (cw * ncols) p \<in> set cells"
  proof (cases "buf ! p = pixels sheet ! p \<or> cell_index cw ch ncols (cw * ncols) p = i")
    case True
    then have "buf ! p = pixels sheet ! p
       \<or> cell_index cw ch ncols (cw * ncols) p = (i div ncols) * ncols + i mod ncols" by simp
    then have "?b ! p = pixels sheet ! p"
      unfolding sl using W rc Cons.prems(2,3) by (intro blit_copy_cell_agree [where nrows = nrows]) 
    then show ?thesis by simp
  next
    case False
    then show ?thesis using Cons.prems(4) by auto
  qed
  moreover have "\<forall>i\<in>set cells. i < ncols * nrows" using Cons.prems(1) by simp
  ultimately have "fold (\<lambda>i. blit (cw * ncols) (slots ! i) ((i mod ncols) * cw) ((i div ncols) * ch)) cells ?b ! p
        = pixels sheet ! p"
    using len p by (intro Cons.IH)
  then show ?case by simp
qed

lemma compose_fold_length:
  "length (fold (\<lambda>i. blit W (slots ! i) (fx i) (fy i)) cells buf) = length buf"
  by (induction cells arbitrary: buf) (simp_all add: blit_length)

lemma uniform_slots_map_copy_cell:
  "uniform_slots (map (\<lambda>i. copy_cell img cw ch (fr i) (fc i)) cells)"
  by (cases cells) (simp_all add: uniform_slots_def list_all_iff copy_cell_dims)

text \<open>
  Claim C1 (round trip). For every well-formed sheet (its buffer holds width * height
  pixels) and every layout of positive columns and rows such that the width is evenly
  divisible by the columns and the height by the rows, slicing the sheet and composing
  the slots again succeeds and returns the sheet itself: same width, same height and
  the same pixel at every position.
\<close>

theorem slice_compose_roundtrip:
  assumes wf: "wf_image sheet" and L: "wf_layout L"
    and dv: "columns L dvd width sheet" "rows L dvd height sheet"
  shows "slice_then_compose sheet L = Inr sheet"
proof -
  define nc nr where "nc = columns L" and "nr = rows L"
  define cw ch where "cw = width sheet div nc" and "ch = height sheet div nr"
  define imgs where "imgs = map (\<lambda>i. copy_cell sheet cw ch (i div nc) (i mod nc)) [0..<nc * nr]"
  have pos: "0 < nc" "0 < nr" using L by (simp_all add: wf_layout_def nc_def nr_def)
  have W: "width sheet = cw * nc" and H: "height sheet = ch * nr"
    using dv by (simp_all add: cw_def ch_def nc_def nr_def)
  have sl: "slice sheet L = Inr (map (\<lambda>i. \<lparr>slot_image = copy_cell sheet cw ch (i div nc) (i mod nc),
                                           originalIndex = i\<rparr>) [0..<nc * nr])"
    using dv by (simp add: slice_def cw_def ch_def nc_def nr_def mod_eq_0_iff_dvd)
  have imgs: "map slot_image (map (\<lambda>i. \<lparr>slot_image = copy_cell sheet cw ch (i div nc) (i mod nc),
                                           originalIndex = i\<rparr>) [0..<nc * nr]) = imgs"
    by (simp add: imgs_def comp_def)
  have n: "length imgs = nc * nr" by (simp add: imgs_def)
  have un: "uniform_slots imgs" unfolding imgs_def by (rule uniform_slots_map_copy_cell)
  have nth: "\<forall>i<nc * nr. imgs ! i = copy_cell sheet cw ch (i div nc) (i mod nc)"
    by (simp add: imgs_def)
  have "0 < nc * nr" using pos by simp
  then obtain s rest where sr: "imgs = s # rest" using n by (cases imgs) auto
  have "s = imgs ! 0" using sr by simp
  then have s: "width s = cw" "height s = ch" using nth \<open>0 < nc * nr\<close> by (simp_all add: copy_cell_dims)
  let ?buf = "fold (\<lambda>i. blit (cw * nc) (imgs ! i) ((i mod nc) * cw) ((i div nc) * ch))
                   [0..<nc * nr] (replicate (cw * nc * (ch * nr)) transparent)"
  have comp: "compose imgs L = Inr \<lparr>width = cw * nc, height = ch * nr, pixels = ?buf\<rparr>"
    using n un s by (simp add: compose_def sr Let_def nc_def [symmetric] nr_def [symmetric] del: upt_Suc)
  have lb: "length ?buf = cw * nc * (ch * nr)" by (simp add: compose_fold_length)
  have ls: "length (pixels sheet) = cw * nc * (ch * nr)" using wf W H by (simp add: wf_image_def)
  have "?buf = pixels sheet"
  proof (rule nth_equalityI)
    show "length ?buf = length (pixels sheet)" using lb ls by simp
  next
    fix p assume "p < length ?buf"
    then have p: "p < cw * nc * (ch * nr)" using lb by simp
    have "cell_index cw ch nc (cw * nc) p \<in> set [0..<nc * nr]"
      using cell_index_bound [OF p] by simp
    then show "?buf ! p = pixels sheet ! p"
      using W nth p by (intro compose_fold_agree [where nrows = nr and ch = ch]) simp_all
  qed
  then have "compose imgs L = Inr sheet" using comp W H by simp
  then show ?thesis using sl imgs by (simp add: slice_then_compose_def)
qed


theorem slice_compose_roundtrip_witness:
  "wf_image sheet_4x2 \<and> wf_layout layout_2x2
   \<and> columns layout_2x2 dvd width sheet_4x2 \<and> rows layout_2x2 dvd height sheet_4x2
   \<and> slice_then_compose sheet_4x2 layout_2x2 = Inr sheet_4x2"
proof -
  have wf: "wf_image sheet_4x2" by (simp add: wf_image_def sheet_4x2_def)
  have L: "wf_layout layout_2x2" by (simp add: wf_layout_def layout_2x2_def)
  have dv: "columns layout_2x2 dvd width sheet_4x2" "rows layout_2x2 dvd height sheet_4x2"
    by (simp_all add: layout_2x2_def sheet_4x2_def)
  show ?thesis using wf L dv slice_compose_roundtrip [OF wf L dv] by simp
qed

text \<open>
  Claim C4 (dimension rejection). Slicing fails, and then with DimensionError and no
  other error, exactly when the width is not evenly divisible by the columns or the
  height is not evenly divisible by the rows. When it succeeds there is one slot per
  grid cell, slot i carries originalIndex i, and its image is a full cell: it has width
  (width / columns) and height (height / rows), a buffer of exactly that many pixels,
  and at every cell coordinate (x, y) the sheet's pixel at
  (column * cellWidth + x, row * cellHeight + y), with row = i div columns and
  column = i mod columns.
\<close>

theorem slice_dimension_error_iff:
  "(slice img L = Inl DimensionError \<longleftrightarrow> \<not> columns L dvd width img \<or> \<not> rows L dvd height img)
   \<and> (\<forall>e. slice img L = Inl e \<longrightarrow> e = DimensionError)
   \<and> (\<forall>slots. slice img L = Inr slots \<longrightarrow>
         length slots = columns L * rows L
         \<and> (\<forall>i<length slots.
               originalIndex (slots ! i) = i
               \<and> width (slot_image (slots ! i)) = width img div columns L
               \<and> height (slot_image (slots ! i)) = height img div rows L
               \<and> wf_image (slot_image (slots ! i))
               \<and> (\<forall>x<width img div columns L. \<forall>y<height img div rows L.
                     pixels (slot_image (slots ! i)) ! (y * (width img div columns L) + x)
                     = pixels img ! ((i div columns L * (height img div rows L) + y) * width img
                                     + (i mod columns L * (width img div columns L) + x)))))"
proof (intro conjI allI impI)
  show "slice img L = Inl DimensionError \<longleftrightarrow> \<not> columns L dvd width img \<or> \<not> rows L dvd height img"
    by (simp add: slice_def mod_eq_0_iff_dvd)
next
  fix e assume "slice img L = Inl e"
  then show "e = DimensionError" by (simp add: slice_def split: if_splits)
next
  fix slots assume "slice img L = Inr slots"
  then show "length slots = columns L * rows L" by (auto simp: slice_def split: if_splits)
next
  fix slots i assume s: "slice img L = Inr slots" and i: "i < length slots"
  let ?cw = "width img div columns L" and ?ch = "height img div rows L"
  have sl: "slots = map (\<lambda>i. \<lparr>slot_image = copy_cell img ?cw ?ch (i div columns L) (i mod columns L),
                               originalIndex = i\<rparr>) [0..<columns L * rows L]"
    using s by (auto simp: slice_def split: if_splits)
  then have n: "i < columns L * rows L" using i by simp
  have nth: "slots ! i = \<lparr>slot_image = copy_cell img ?cw ?ch (i div columns L) (i mod columns L),
                          originalIndex = i\<rparr>"
    unfolding sl using n by simp
  show "originalIndex (slots ! i) = i" by (simp add: nth)
  show "width (slot_image (slots ! i)) = ?cw" by (simp add: nth copy_cell_dims)
  show "height (slot_image (slots ! i)) = ?ch" by (simp add: nth copy_cell_dims)
  show "wf_image (slot_image (slots ! i))" by (simp add: nth wf_image_def copy_cell_dims)
  fix x y assume "x < ?cw" "y < ?ch"
  then show "pixels (slot_image (slots ! i)) ! (y * ?cw + x)
      = pixels img ! ((i div columns L * ?ch + y) * width img + (i mod columns L * ?cw + x))"
    by (simp add: nth copy_cell_pixel)
qed

theorem slice_dimension_error_iff_witness:
  "\<not> columns layout_2x2 dvd width sheet_3x2
   \<and> slice sheet_3x2 layout_2x2 = Inl DimensionError
   \<and> columns layout_2x2 dvd width sheet_4x2 \<and> rows layout_2x2 dvd height sheet_4x2
   \<and> slice sheet_4x2 layout_2x2
       = Inr [\<lparr>slot_image = tile_2x1 1, originalIndex = 0\<rparr>, \<lparr>slot_image = tile_2x1 3, originalIndex = 1\<rparr>,
              \<lparr>slot_image = tile_2x1 5, originalIndex = 2\<rparr>, \<lparr>slot_image = tile_2x1 7, originalIndex = 3\<rparr>]
   \<and> width (tile_2x1 5) = width sheet_4x2 div columns layout_2x2
   \<and> height (tile_2x1 5) = height sheet_4x2 div rows layout_2x2
   \<and> wf_image (tile_2x1 5)"
proof -
  let ?slots = "[\<lparr>slot_image = tile_2x1 1, originalIndex = 0\<rparr>, \<lparr>slot_image = tile_2x1 3, originalIndex = 1\<rparr>,
              \<lparr>slot_image = tile_2x1 5, originalIndex = 2\<rparr>, \<lparr>slot_image = tile_2x1 7, originalIndex = 3\<rparr>]"
  have bad: "\<not> columns layout_2x2 dvd width sheet_3x2" by (simp add: layout_2x2_def sheet_3x2_def)
  have good: "columns layout_2x2 dvd width sheet_4x2" "rows layout_2x2 dvd height sheet_4x2"
    by (simp_all add: layout_2x2_def sheet_4x2_def)
  have s: "slice sheet_4x2 layout_2x2 = Inr ?slots"
    by code_simp
  have e: "slice sheet_3x2 layout_2x2 = Inl DimensionError"
    using slice_dimension_error_iff [of sheet_3x2 layout_2x2, THEN conjunct1] bad by simp
  have i: "(2::nat) < length ?slots" by simp
  note cell = slice_dimension_error_iff [of sheet_4x2 layout_2x2, THEN conjunct2, THEN conjunct2,
      rule_format, OF s, THEN conjunct2, rule_format, OF i]
  have w: "width (tile_2x1 5) = width sheet_4x2 div columns layout_2x2"
    using cell [THEN conjunct2, THEN conjunct1] by simp
  have h: "height (tile_2x1 5) = height sheet_4x2 div rows layout_2x2"
    using cell [THEN conjunct2, THEN conjunct2, THEN conjunct1] by simp
  have f: "wf_image (tile_2x1 5)"
    using cell [THEN conjunct2, THEN conjunct2, THEN conjunct2, THEN conjunct1] by simp
  show ?thesis using bad e good s w h f by simp
qed

lemma uniform_slots_iff:
  "uniform_slots slots \<longleftrightarrow> (\<forall>s\<in>set slots. \<forall>t\<in>set slots. width s = width t \<and> height s = height t)"
proof (cases slots)
  case Nil
  then show ?thesis by (simp add: uniform_slots_def)
next
  case (Cons a rest)
  show ?thesis
  proof
    assume "uniform_slots slots"
    then have "\<forall>t\<in>set slots. width t = width a \<and> height t = height a"
      by (simp add: uniform_slots_def Cons list_all_iff)
    then show "\<forall>s\<in>set slots. \<forall>t\<in>set slots. width s = width t \<and> height s = height t" by simp
  next
    assume h: "\<forall>s\<in>set slots. \<forall>t\<in>set slots. width s = width t \<and> height s = height t"
    have "a \<in> set slots" by (simp add: Cons)
    with h have "\<forall>t\<in>set slots. width t = width a \<and> height t = height a" by blast
    then have "\<forall>t\<in>set rest. width t = width a \<and> height t = height a" by (simp add: Cons)
    then show "uniform_slots slots" by (simp add: uniform_slots_def Cons list_all_iff)
  qed
qed

text \<open>
  Claim C5 (shape rejection). Composition fails with ShapeMismatchError whenever the
  number of slots differs from columns * rows or two of the slots differ in width or in
  height. These are the only failures and ShapeMismatchError the only error. The test
  is the first thing the composer does: a failing call returns the error alone, no
  buffer is allocated or written and no image is returned; its arguments are values and
  stay as they were.
\<close>

theorem compose_shape_mismatch:
  "(compose slots L = Inl ShapeMismatchError \<longleftrightarrow>
      length slots \<noteq> columns L * rows L
      \<or> (\<exists>s\<in>set slots. \<exists>t\<in>set slots. width s \<noteq> width t \<or> height s \<noteq> height t))
   \<and> (\<forall>e. compose slots L = Inl e \<longrightarrow> e = ShapeMismatchError)"
proof (intro conjI allI impI)
  have "compose slots L = Inl ShapeMismatchError \<longleftrightarrow>
      length slots \<noteq> columns L * rows L \<or> \<not> uniform_slots slots"
    by (simp add: compose_def Let_def)
  then show "compose slots L = Inl ShapeMismatchError \<longleftrightarrow>
      length slots \<noteq> columns L * rows L
      \<or> (\<exists>s\<in>set slots. \<exists>t\<in>set slots. width s \<noteq> width t \<or> height s \<noteq> height t)"
    unfolding uniform_slots_iff by blast
next
  fix e assume "compose slots L = Inl e"
  then show "e = ShapeMismatchError" by (simp add: compose_def Let_def split: if_splits)
qed

theorem compose_shape_mismatch_witness:
  "length (replicate 15 (tile_1x1 0)) \<noteq> columns \<lparr>columns = 4, rows = 4\<rparr> * rows \<lparr>columns = 4, rows = 4\<rparr>
   \<and> compose (replicate 15 (tile_1x1 0)) \<lparr>columns = 4, rows = 4\<rparr> = Inl ShapeMismatchError
   \<and> width (tile_1x1 1) \<noteq> width (tile_2x1 2)
   \<and> compose [tile_1x1 1, tile_2x1 2, tile_1x1 4, tile_1x1 5] layout_2x2 = Inl ShapeMismatchError"
proof -
  let ?mixed = "[tile_1x1 1, tile_2x1 2, tile_1x1 4, tile_1x1 5]"
  have n: "length (replicate 15 (tile_1x1 0)) \<noteq> columns \<lparr>columns = 4, rows = 4\<rparr> * rows \<lparr>columns = 4, rows = 4\<rparr>"
    by simp
  have w: "width (tile_1x1 1) \<noteq> width (tile_2x1 2)" by (simp add: tile_1x1_def tile_2x1_def)
  have "tile_1x1 1 \<in> set ?mixed" "tile_2x1 2 \<in> set ?mixed" by simp_all
  then have m: "\<exists>s\<in>set ?mixed. \<exists>t\<in>set ?mixed. width s \<noteq> width t \<or> height s \<noteq> height t"
    using w by blast
  have a: "compose ?mixed layout_2x2 = Inl ShapeMismatchError"
    using compose_shape_mismatch [of ?mixed layout_2x2, THEN conjunct1, THEN iffD2] m by (rule meta_mp) blast
  have b: "compose (replicate 15 (tile_1x1 0)) \<lparr>columns = 4, rows = 4\<rparr> = Inl ShapeMismatchError"
    using compose_shape_mismatch [of "replicate 15 (tile_1x1 0)" "\<lparr>columns = 4, rows = 4\<rparr>",
        THEN conjunct1, THEN iffD2] n by (rule meta_mp) blast
  show ?thesis using n w a b by simp
qed

section \<open>Properties of the extractor\<close>

text \<open>The classification reads the colour channels only, so a pixel whose alpha alone was
  replaced is classified as before.\<close>

lemma classify_alpha_update: "classify P a (p\<lparr>alpha := v\<rparr>) = classify P a p"
  by (simp add: classify_def key_distance_def)

lemma extract_pixel_fixed:
  assumes "classify P a p \<noteq> SoftEdge"
  shows "extract_pixel P a (extract_pixel P a p) = extract_pixel P a p"
proof (cases "classify P a p")
  case Background
  then show ?thesis by (simp add: extract_pixel_def classify_alpha_update)
next
  case SoftEdge
  then show ?thesis using assms by simp
next
  case Foreground
  then show ?thesis by (simp add: extract_pixel_def classify_alpha_update)
qed

lemma extract_pixel_foreground:
  "classify P a p = Foreground \<Longrightarrow> extract_pixel P a p = p\<lparr>alpha := 255\<rparr>"
  by (simp add: extract_pixel_def)

lemma set_alpha_opaque_id: "alpha p = 255 \<Longrightarrow> p\<lparr>alpha := 255\<rparr> = p"
  by (cases p) simp

text \<open>
  Extraction and a second pass. Extraction has no error result and keeps width, height
  and the number of pixels. Whether a second pass with the same flag changes the image
  depends on the parameters that the specification leaves open, and the three lemmas
  below delimit it. For all parameters, a second pass leaves unchanged every pixel that
  the first pass classified as background or as foreground, and an image whose pixels
  all lie above the outer threshold comes back with alpha 255 and its colours untouched
  (unchanged if it was fully opaque).
\<close>

lemma extract_total_and_idempotent_off_soft_edge:
  "width (extract_image P img a) = width img \<and> height (extract_image P img a) = height img
   \<and> length (pixels (extract_image P img a)) = length (pixels img)
   \<and> (\<forall>i<length (pixels img). classify P a (pixels img ! i) \<noteq> SoftEdge \<longrightarrow>
         pixels (extract_image P (extract_image P img a) a) ! i = pixels (extract_image P img a) ! i)
   \<and> ((\<forall>p\<in>set (pixels img). classify P a p \<noteq> SoftEdge) \<longrightarrow>
         extract_image P (extract_image P img a) a = extract_image P img a)
   \<and> ((\<forall>p\<in>set (pixels img). classify P a p = Foreground) \<longrightarrow>
         pixels (extract_image P img a) = map (\<lambda>p. p\<lparr>alpha := 255\<rparr>) (pixels img)
         \<and> ((\<forall>p\<in>set (pixels img). alpha p = 255) \<longrightarrow> extract_image P img a = img))"
proof (intro conjI allI impI)
  show "width (extract_image P img a) = width img" by (simp add: extract_image_def)
next
  show "height (extract_image P img a) = height img" by (simp add: extract_image_def)
next
  show "length (pixels (extract_image P img a)) = length (pixels img)" by (simp add: extract_image_def)
next
  fix i assume "i < length (pixels img)" "classify P a (pixels img ! i) \<noteq> SoftEdge"
  then show "pixels (extract_image P (extract_image P img a) a) ! i = pixels (extract_image P img a) ! i"
    by (simp add: extract_image_def extract_pixel_fixed)
next
  assume "\<forall>p\<in>set (pixels img). classify P a p \<noteq> SoftEdge"
  then have "map (extract_pixel P a) (map (extract_pixel P a) (pixels img))
             = map (extract_pixel P a) (pixels img)"
    by (simp add: extract_pixel_fixed)
  then show "extract_image P (extract_image P img a) a = extract_image P img a"
    by (simp add: extract_image_def)
next
  assume fg: "\<forall>p\<in>set (pixels img). classify P a p = Foreground"
  then show "pixels (extract_image P img a) = map (\<lambda>p. p\<lparr>alpha := 255\<rparr>) (pixels img)"
    by (simp add: extract_image_def extract_pixel_foreground)
next
  assume fg: "\<forall>p\<in>set (pixels img). classify P a p = Foreground"
  then have m: "pixels (extract_image P img a) = map (\<lambda>p. p\<lparr>alpha := 255\<rparr>) (pixels img)"
    by (simp add: extract_image_def extract_pixel_foreground)
  assume "\<forall>p\<in>set (pixels img). alpha p = 255"
  then have "map (\<lambda>p. p\<lparr>alpha := 255\<rparr>) (pixels img) = pixels img"
    by (intro map_idI) (simp add: set_alpha_opaque_id)
  then have "pixels (extract_image P img a) = pixels img" using m by simp
  then show "extract_image P img a = img" by (simp add: extract_image_def)
qed


text \<open>
  If the distance does not depend on the green channel and despilling a despilled
  colour changes nothing, a soft-edge pixel is classified and interpolated as before by
  the second pass, and extraction is idempotent on every image.
\<close>

lemma extract_idempotent_if_distance_ignores_green:
  assumes blind: "\<forall>r g g' b. distance P r g b = distance P r g' b"
    and idem: "\<forall>r g b. despill P r (despill P r g b) b = despill P r g b"
  shows "extract_image P (extract_image P img a) a = extract_image P img a"
proof -
  have pix: "extract_pixel P a (extract_pixel P a p) = extract_pixel P a p" for p
  proof (cases "classify P a p = SoftEdge")
    case False
    then show ?thesis by (rule extract_pixel_fixed)
  next
    case True
    let ?al = "soft_alpha P a (key_distance P p)"
    show ?thesis
    proof (cases "?al = 255")
      case opaque: True
      have q: "extract_pixel P a p = p\<lparr>alpha := 255\<rparr>"
        using True opaque by (simp add: extract_pixel_def)
      have "key_distance P (p\<lparr>alpha := 255\<rparr>) = key_distance P p" by (simp add: key_distance_def)
      then show ?thesis unfolding q using True opaque
        by (simp add: extract_pixel_def classify_alpha_update)
    next
      case soft: False
      let ?q = "p\<lparr>green := despill P (red p) (green p) (blue p), alpha := ?al\<rparr>"
      have q: "extract_pixel P a p = ?q"
        using True soft by (simp add: extract_pixel_def)
      have d: "key_distance P ?q = key_distance P p"
        using blind by (simp add: key_distance_def)
      have c: "classify P a ?q = SoftEdge"
        using True unfolding classify_def d .
      have "extract_pixel P a ?q = ?q"
        using c d soft idem by (simp add: extract_pixel_def)
      then show ?thesis unfolding q .
    qed
  qed
  show ?thesis by (simp add: extract_image_def pix)
qed

text \<open>
  With a distance that does depend on green a soft-edge pixel can change again. With
  the reference parameters and the aggressive flag, the fringe pixel (60, 200, 60) has
  distance 17425, between the thresholds 12000 and 45000: the first pass gives it alpha
  41 and lowers green to 60. The colour (60, 60, 60) has distance 52425, above the
  outer threshold, so the second pass sets alpha 255.
\<close>

lemma extract_not_idempotent_on_fringe:
  "extract_image reference_params (extract_image reference_params fringe_image True) True
   \<noteq> extract_image reference_params fringe_image True"
proof -
  have one: "extract_image reference_params fringe_image True
     = \<lparr>width = 1, height = 1, pixels = [\<lparr>red = 60, green = 60, blue = 60, alpha = 41\<rparr>]\<rparr>"
    by (simp add: fringe_image_def fringe_pixel_def extract_image_def extract_pixel_def classify_def key_distance_def reference_params_def
      weighted_distance_def despill_to_average_def soft_alpha_def)
  have two: "extract_image reference_params
       \<lparr>width = 1, height = 1, pixels = [\<lparr>red = 60, green = 60, blue = 60, alpha = 41\<rparr>]\<rparr> True
     = \<lparr>width = 1, height = 1, pixels = [\<lparr>red = 60, green = 60, blue = 60, alpha = 255\<rparr>]\<rparr>"
    by (simp add: extract_image_def extract_pixel_def classify_def key_distance_def reference_params_def
      weighted_distance_def despill_to_average_def soft_alpha_def)
  show ?thesis unfolding one two by simp
qed

lemma filter_length_mono:
  "(\<And>x. x \<in> set xs \<Longrightarrow> Q x \<Longrightarrow> R x) \<Longrightarrow> length (filter Q xs) \<le> length (filter R xs)"
  by (induction xs) auto

text \<open>
  Claim C7 (monotonic tolerance). If the aggressive thresholds are at least the
  conservative ones, then on every image the fraction of pixels classified as
  background with \<open>aggressive = true\<close> is at least the fraction with
  \<open>aggressive = false\<close>; the same holds for the fraction of pixels not classified as
  foreground.
\<close>

theorem aggressive_background_fraction_mono:
  assumes "widening P"
  shows "background_fraction P False img \<le> background_fraction P True img
         \<and> keyed_fraction P False img \<le> keyed_fraction P True img"
proof
  have "length (filter (\<lambda>p. classify P False p = Background) (pixels img))
        \<le> length (filter (\<lambda>p. classify P True p = Background) (pixels img))"
    using assms by (intro filter_length_mono) (auto simp: classify_def widening_def split: if_splits)
  then show "background_fraction P False img \<le> background_fraction P True img"
    by (simp add: background_fraction_def divide_right_mono)
  have "length (filter (\<lambda>p. classify P False p \<noteq> Foreground) (pixels img))
        \<le> length (filter (\<lambda>p. classify P True p \<noteq> Foreground) (pixels img))"
    using assms by (intro filter_length_mono) (auto simp: classify_def widening_def split: if_splits)
  then show "keyed_fraction P False img \<le> keyed_fraction P True img"
    by (simp add: keyed_fraction_def divide_right_mono)
qed


theorem aggressive_background_fraction_mono_witness:
  "widening reference_params
   \<and> background_fraction reference_params False mixed_image = 1 / 4
   \<and> background_fraction reference_params True mixed_image = 1 / 2
   \<and> background_fraction reference_params False mixed_image
       \<le> background_fraction reference_params True mixed_image"
proof -
  have w: "widening reference_params" by (simp add: widening_def reference_params_def)
  have f: "background_fraction reference_params False mixed_image = 1 / 4"
    by (simp add: background_fraction_def mixed_image_def key_pixel_def near_key_pixel_def
        fringe_pixel_def ink_pixel_def classify_def key_distance_def reference_params_def
        weighted_distance_def)
  have t: "background_fraction reference_params True mixed_image = 1 / 2"
    by (simp add: background_fraction_def mixed_image_def key_pixel_def near_key_pixel_def
        fringe_pixel_def ink_pixel_def classify_def key_distance_def reference_params_def
        weighted_distance_def)
  have m: "background_fraction reference_params False mixed_image
       \<le> background_fraction reference_params True mixed_image"
    using aggressive_background_fraction_mono [OF w, of mixed_image, THEN conjunct1] .
  show ?thesis using w f t m by blast
qed

section \<open>Properties of generateSheet\<close>

lemma total_16: "TOTAL_STICKERS = 16"
  by (simp add: TOTAL_STICKERS_def STICKER_COLUMNS_def STICKER_ROWS_def)

lemma catch_incomplete: "catch_block incomplete_message = [SetError (Some incomplete_message)]"
  by (simp add: catch_block_def incomplete_message_def js_def)

lemma service_calls_append: "service_calls (xs @ ys) = service_calls xs @ service_calls ys"
  by (simp add: service_calls_def)

lemma service_calls_catch: "service_calls (catch_finally err) = []"
  by (cases err) (simp_all add: service_calls_def catch_finally_def catch_block_def finally_block_def)

lemma service_calls_finally: "service_calls finally_block = []"
  by (simp add: service_calls_def finally_block_def)

lemma catch_finally_incomplete:
  "catch_finally (Thrown incomplete_message)
   = [SetError (Some incomplete_message), SetLoading False, SetProcessingStep Idle,
      SetGenerationTargetCount TOTAL_STICKERS]"
  by (simp add: catch_finally_def catch_incomplete finally_block_def)

lemma merge_reuse_length: "length (merge_slots True slots regenerated now) = length slots"
  by (simp add: merge_slots_def)

lemma merge_fresh_length:
  "TOTAL_STICKERS \<le> length regenerated \<Longrightarrow> length (merge_slots False slots regenerated now) = TOTAL_STICKERS"
  by (simp add: merge_slots_def)

lemma merge_reuse_url:
  assumes "i < length slots"
  shows "url (merge_slots True slots regenerated now ! i)
         = (if locked (slots ! i) then url (slots ! i) else regenerated ! i)"
  using assms by (simp add: merge_slots_def)

lemma merge_reuse_locked:
  assumes "i < length slots"
  shows "locked (merge_slots True slots regenerated now ! i) = locked (slots ! i)"
  using assms by (simp add: merge_slots_def)

lemma generateSheet_guarded:
  assumes "guards_pass st"
  shows "generateSheet S st =
      [SetGenerationTargetCount (if length (stickerSlots st) = TOTAL_STICKERS
                                 then length (filter (\<lambda>slot. \<not> locked slot) (stickerSlots st))
                                 else TOTAL_STICKERS),
       SetLoading True, SetProcessingStep Analyzing, SetError None]
      @ (case try_block S st (length (stickerSlots st) = TOTAL_STICKERS) of
           (effects, None) \<Rightarrow> effects @ finally_block
         | (effects, Some err) \<Rightarrow> effects @ catch_finally err)"
  using assms by (auto simp: guards_pass_def generateSheet_def Let_def filter_empty_conv)

lemma generateSheet_rejected:
  assumes "\<not> guards_pass st"
  shows "generateSheet S st =
          [SetError (Some (if \<not> isOnline st then offline_message
                           else if base64Image (config st) = [] then no_image_message
                           else all_locked_message))]"
  using assms by (auto simp: guards_pass_def generateSheet_def Let_def filter_empty_conv)

lemma try_block_incomplete:
  assumes "generateStickerSheet S (config st) = Inr sheet"
    "processTransparentSheet S sheet True = Inr processed"
    "splitStickerSheet S processed STICKER_COLUMNS STICKER_ROWS = Inr regenerated"
    "length regenerated < TOTAL_STICKERS"
  shows "try_block S st c =
     ([Wait 650, SetProcessingStep Generating, CallGenerateStickerSheet (config st),
       SetProcessingStep Removing, Wait 300, CallProcessTransparentSheet sheet True,
       CallSplitStickerSheet processed STICKER_COLUMNS STICKER_ROWS],
      Some (Thrown incomplete_message))"
  using assms by (simp add: try_block_def Let_def)

lemma try_block_to_compose:
  assumes "generateStickerSheet S (config st) = Inr sheet"
    "processTransparentSheet S sheet True = Inr processed"
    "splitStickerSheet S processed STICKER_COLUMNS STICKER_ROWS = Inr regenerated"
    "TOTAL_STICKERS \<le> length regenerated"
  shows "service_calls (fst (try_block S st c)) =
     [CallGenerateStickerSheet (config st), CallProcessTransparentSheet sheet True,
      CallSplitStickerSheet processed STICKER_COLUMNS STICKER_ROWS,
      CallComposeStickerSheet (map url (merge_slots c (stickerSlots st) regenerated (date_now S)))
         STICKER_COLUMNS STICKER_ROWS]"
  using assms by (simp add: try_block_def Let_def service_calls_def split: sum.splits)

lemma service_calls_case:
  "service_calls (case p of (effects, None) \<Rightarrow> effects @ finally_block
                  | (effects, Some err) \<Rightarrow> effects @ catch_finally err)
   = service_calls (fst p)"
  by (cases p; cases "snd p")
    (simp_all add: service_calls_append service_calls_catch service_calls_finally)

lemma service_calls_generateSheet:
  "service_calls (generateSheet S st) =
     (if guards_pass st then service_calls (fst (try_block S st (length (stickerSlots st) = TOTAL_STICKERS)))
      else [])"
proof (cases "guards_pass st")
  case True
  show ?thesis unfolding generateSheet_guarded [OF True] service_calls_append service_calls_case
    using True by (simp add: service_calls_def)
next
  case False
  show ?thesis unfolding generateSheet_rejected [OF False] using False by (simp add: service_calls_def)
qed

lemma try_block_calls:
  "service_calls (fst (try_block S st c)) =
     (case generateStickerSheet S (config st) of
        Inl err \<Rightarrow> [CallGenerateStickerSheet (config st)]
      | Inr sheet \<Rightarrow>
         (case processTransparentSheet S sheet True of
            Inl err \<Rightarrow> [CallGenerateStickerSheet (config st), CallProcessTransparentSheet sheet True]
          | Inr processed \<Rightarrow>
             [CallGenerateStickerSheet (config st), CallProcessTransparentSheet sheet True,
              CallSplitStickerSheet processed STICKER_COLUMNS STICKER_ROWS]
             @ (case splitStickerSheet S processed STICKER_COLUMNS STICKER_ROWS of
                  Inl err \<Rightarrow> []
                | Inr regenerated \<Rightarrow>
                    if length regenerated < TOTAL_STICKERS then []
                    else [CallComposeStickerSheet
                            (map url (merge_slots c (stickerSlots st) regenerated (date_now S)))
                            STICKER_COLUMNS STICKER_ROWS])))"
  by (simp add: try_block_def Let_def service_calls_def split: sum.splits)

lemma call_in_service_calls:
  "stage_of e \<noteq> None \<Longrightarrow> e \<in> set effects \<longleftrightarrow> e \<in> set (service_calls effects)"
  by (simp add: service_calls_def)

lemma merged_length:
  assumes "TOTAL_STICKERS \<le> length regenerated"
  shows "length (merge_slots (length slots = TOTAL_STICKERS) slots regenerated now) = TOTAL_STICKERS"
  using assms by (cases "length slots = TOTAL_STICKERS") (simp_all add: merge_reuse_length merge_fresh_length)

lemma filter_stage_service_calls:
  "filter (\<lambda>e. stage_of e = Some s) effects = filter (\<lambda>e. stage_of e = Some s) (service_calls effects)"
proof -
  have "filter (\<lambda>e. stage_of e = Some s) (service_calls effects)
        = filter (\<lambda>e. stage_of e \<noteq> None \<and> stage_of e = Some s) effects"
    by (simp add: service_calls_def)
  also have "\<dots> = filter (\<lambda>e. stage_of e = Some s) effects"
    by (rule filter_cong) auto
  finally show ?thesis by simp
qed

lemma run_effects_append: "run_effects (xs @ ys) st = run_effects ys (run_effects xs st)"
  by (simp add: run_effects_def)

lemma try_block_success:
  assumes "generateStickerSheet S (config st) = Inr sheet"
    "processTransparentSheet S sheet True = Inr processed"
    "splitStickerSheet S processed STICKER_COLUMNS STICKER_ROWS = Inr regenerated"
    "TOTAL_STICKERS \<le> length regenerated"
    "composeStickerSheet S (map url (merge_slots c (stickerSlots st) regenerated (date_now S)))
        STICKER_COLUMNS STICKER_ROWS = Inr composed"
  shows "try_block S st c =
     ([Wait 650, SetProcessingStep Generating, CallGenerateStickerSheet (config st),
       SetProcessingStep Removing, Wait 300, CallProcessTransparentSheet sheet True,
       CallSplitStickerSheet processed STICKER_COLUMNS STICKER_ROWS,
       CallComposeStickerSheet (map url (merge_slots c (stickerSlots st) regenerated (date_now S)))
          STICKER_COLUMNS STICKER_ROWS,
       SetStickerSlots (merge_slots c (stickerSlots st) regenerated (date_now S)),
       SetTransparentImageUrl (Some composed), SetHasGenerated True,
       SetProcessingStep Complete, ScheduleScrollToResult], None)"
  using assms by (simp add: try_block_def Let_def)

lemma keeps_slots_run:
  "keeps_slots b \<Longrightarrow> stickerSlots (run_effects b st) = stickerSlots st
                      \<and> hasGenerated (run_effects b st) = hasGenerated st"
proof (induction b arbitrary: st)
  case Nil
  then show ?case by (simp add: run_effects_def)
next
  case (Cons e b)
  then have k: "keeps_slots b" and e: "(\<forall>m. e \<noteq> SetStickerSlots m) \<and> (\<forall>x. e \<noteq> SetHasGenerated x)"
    by (simp_all add: keeps_slots_def)
  have "stickerSlots (apply_effect e st) = stickerSlots st \<and> hasGenerated (apply_effect e st) = hasGenerated st"
    using e by (cases e) auto
  then show ?case using Cons.IH [OF k, of "apply_effect e st"] by (simp add: run_effects_def)
qed

lemma try_block_shapes:
  "(\<exists>m. try_block S st c = ([Wait 650, SetProcessingStep Generating, CallGenerateStickerSheet (config st)], Some m))
   \<or> (\<exists>m sheet. try_block S st c =
         ([Wait 650, SetProcessingStep Generating, CallGenerateStickerSheet (config st),
           SetProcessingStep Removing, Wait 300, CallProcessTransparentSheet sheet True], Some m))
   \<or> (\<exists>m sheet processed. try_block S st c =
         ([Wait 650, SetProcessingStep Generating, CallGenerateStickerSheet (config st),
           SetProcessingStep Removing, Wait 300, CallProcessTransparentSheet sheet True,
           CallSplitStickerSheet processed STICKER_COLUMNS STICKER_ROWS], Some m))
   \<or> (\<exists>m sheet processed urls. try_block S st c =
         ([Wait 650, SetProcessingStep Generating, CallGenerateStickerSheet (config st),
           SetProcessingStep Removing, Wait 300, CallProcessTransparentSheet sheet True,
           CallSplitStickerSheet processed STICKER_COLUMNS STICKER_ROWS,
           CallComposeStickerSheet urls STICKER_COLUMNS STICKER_ROWS], Some m))
   \<or> (\<exists>sheet processed merged composed. try_block S st c =
         ([Wait 650, SetProcessingStep Generating, CallGenerateStickerSheet (config st),
           SetProcessingStep Removing, Wait 300, CallProcessTransparentSheet sheet True,
           CallSplitStickerSheet processed STICKER_COLUMNS STICKER_ROWS,
           CallComposeStickerSheet (map url merged) STICKER_COLUMNS STICKER_ROWS,
           SetStickerSlots merged, SetTransparentImageUrl (Some composed), SetHasGenerated True,
           SetProcessingStep Complete, ScheduleScrollToResult], None))"
  by (auto simp: try_block_def Let_def split: sum.splits)

lemma keeps_catch_finally: "keeps_slots (catch_finally err)"
  by (cases err) (simp_all add: keeps_slots_def catch_finally_def catch_block_def finally_block_def)

lemma batches_catch_finally: "batches (catch_finally err) = [catch_finally err]"
  by (cases err) (simp_all add: catch_finally_def catch_block_def finally_block_def)

lemma batch_of_generateSheet:
  assumes "batch \<in> set (batches (generateSheet S st0))"
  shows "keeps_slots batch
     \<or> (\<exists>merged composed. batch = [SetStickerSlots merged, SetTransparentImageUrl (Some composed),
            SetHasGenerated True, SetProcessingStep Complete, ScheduleScrollToResult]
            @ finally_block)"
proof (cases "guards_pass st0")
  case False
  then show ?thesis using assms
    by (simp add: generateSheet_rejected keeps_slots_def)
next
  case True
  note g = generateSheet_guarded [OF True, of S]
  from try_block_shapes [of S st0 "length (stickerSlots st0) = TOTAL_STICKERS"]
  show ?thesis
  proof (elim disjE exE)
    fix m assume t: "try_block S st0 (length (stickerSlots st0) = TOTAL_STICKERS)
       = ([Wait 650, SetProcessingStep Generating, CallGenerateStickerSheet (config st0)], Some m)"
    show ?thesis using assms keeps_catch_finally [of m] unfolding g t
      by (auto simp: batches_catch_finally keeps_slots_def)
  next
    fix m sheet assume t: "try_block S st0 (length (stickerSlots st0) = TOTAL_STICKERS)
       = ([Wait 650, SetProcessingStep Generating, CallGenerateStickerSheet (config st0),
           SetProcessingStep Removing, Wait 300, CallProcessTransparentSheet sheet True], Some m)"
    show ?thesis using assms keeps_catch_finally [of m] unfolding g t
      by (auto simp: batches_catch_finally keeps_slots_def)
  next
    fix m sheet processed assume t: "try_block S st0 (length (stickerSlots st0) = TOTAL_STICKERS)
       = ([Wait 650, SetProcessingStep Generating, CallGenerateStickerSheet (config st0),
           SetProcessingStep Removing, Wait 300, CallProcessTransparentSheet sheet True,
           CallSplitStickerSheet processed STICKER_COLUMNS STICKER_ROWS], Some m)"
    show ?thesis using assms keeps_catch_finally [of m] unfolding g t
      by (auto simp: batches_catch_finally keeps_slots_def)
  next
    fix m sheet processed urls assume t: "try_block S st0 (length (stickerSlots st0) = TOTAL_STICKERS)
       = ([Wait 650, SetProcessingStep Generating, CallGenerateStickerSheet (config st0),
           SetProcessingStep Removing, Wait 300, CallProcessTransparentSheet sheet True,
           CallSplitStickerSheet processed STICKER_COLUMNS STICKER_ROWS,
           CallComposeStickerSheet urls STICKER_COLUMNS STICKER_ROWS], Some m)"
    show ?thesis using assms keeps_catch_finally [of m] unfolding g t
      by (auto simp: batches_catch_finally keeps_slots_def)
  next
    fix sheet processed composed and merged :: "StickerSlot list"
    assume t: "try_block S st0 (length (stickerSlots st0) = TOTAL_STICKERS)
       = ([Wait 650, SetProcessingStep Generating, CallGenerateStickerSheet (config st0),
           SetProcessingStep Removing, Wait 300, CallProcessTransparentSheet sheet True,
           CallSplitStickerSheet processed STICKER_COLUMNS STICKER_ROWS,
           CallComposeStickerSheet (map url merged) STICKER_COLUMNS STICKER_ROWS,
           SetStickerSlots merged, SetTransparentImageUrl (Some composed), SetHasGenerated True,
           SetProcessingStep Complete, ScheduleScrollToResult], None)"
    show ?thesis using assms unfolding g t
      by (auto simp: keeps_slots_def finally_block_def)
  qed
qed

lemma batch_inv:
  assumes "batch \<in> set (batches (generateSheet S st0))"
  shows "hasGenerated (run_effects batch st)
   \<or> (stickerSlots (run_effects batch st) = stickerSlots st
       \<and> hasGenerated (run_effects batch st) = hasGenerated st)"
  using batch_of_generateSheet [OF assms] keeps_slots_run [of batch st]
  by (auto simp: run_effects_def finally_block_def)

lemma reachable_slots_generated: "reachable st \<Longrightarrow> stickerSlots st = [] \<or> hasGenerated st"
proof (induction rule: reachable.induct)
  case (r_init online)
  then show ?case by (simp add: initial_state_def)
next
  case (r_upload st u)
  then show ?case by (auto simp: handleImageUpload_def split: upload.splits option.splits)
next
  case (r_toggle st index)
  then show ?case by (auto simp: toggleStickerLock_def)
next
  case (r_generate st0 st batch S)
  then show ?case using batch_inv [where batch = batch and S = S and ?st0.0 = st0 and st = st] by auto
qed simp_all

lemma batches_nonempty: "batches effects \<noteq> []"
  by (cases effects) (simp_all split: list.splits)

lemma run_batches: "fold (\<lambda>batch. run_effects batch) (batches effects) st = run_effects effects st"
proof (induction effects arbitrary: st)
  case Nil
  then show ?case by (simp add: run_effects_def)
next
  case (Cons e es)
  have step: "run_effects (e # es) st = run_effects es (apply_effect e st)"
    by (simp add: run_effects_def)
  show ?case
  proof (cases "is_await e")
    case True
    then have "apply_effect e st = st" by (cases e) simp_all
    then show ?thesis unfolding step using True Cons.IH [of st] by (simp add: run_effects_def)
  next
    case False
    obtain b bs where bb: "batches es = b # bs"
      using batches_nonempty [of es] by (cases "batches es") simp_all
    have "fold (\<lambda>batch. run_effects batch) bs (run_effects b (apply_effect e st))
          = run_effects es (apply_effect e st)"
      using Cons.IH [of "apply_effect e st"] bb by simp
    moreover have "run_effects (e # b) st = run_effects b (apply_effect e st)"
      by (simp add: run_effects_def)
    ultimately show ?thesis unfolding step using False bb by simp
  qed
qed

lemma reachable_batches:
  assumes "reachable st0"
  shows "reachable st \<Longrightarrow> set bs \<subseteq> set (batches (generateSheet S st0))
         \<Longrightarrow> reachable (fold (\<lambda>batch. run_effects batch) bs st)"
proof (induction bs arbitrary: st)
  case Nil
  then show ?case by simp
next
  case (Cons b bs)
  have "reachable (run_effects b st)" using assms Cons.prems by (intro r_generate) auto
  then show ?case using Cons.IH Cons.prems by simp
qed

lemma reachable_run: "reachable st \<Longrightarrow> reachable (run_effects (generateSheet S st) st)"
  using reachable_batches [of st st "batches (generateSheet S st)" S]
  by (simp add: run_batches)

lemma uploaded_state_eq:
  "uploaded_state = (initial_state True)\<lparr>config := (config (initial_state True))\<lparr>base64Image := js ''data:image/png;base64,AAAA''\<rparr>\<rparr>"
  by (simp add: uploaded_state_def handleImageUpload_def js_def initial_state_def)

lemma uploaded_facts:
  "isOnline uploaded_state" "base64Image (config uploaded_state) \<noteq> []" "stickerSlots uploaded_state = []"
  by (simp_all add: uploaded_state_eq initial_state_def js_def)

lemma uploaded_guards: "guards_pass uploaded_state"
  by (simp add: guards_pass_def uploaded_facts total_16)

lemma demo_urls_length: "length demo_urls = 16"
  by (simp add: demo_urls_def)

lemma generated_state_eq:
  "generated_state = uploaded_state\<lparr>error := None, loading := False, processingStep := Idle,
      generationTargetCount := TOTAL_STICKERS,
      stickerSlots := merge_slots False [] demo_urls 1700000000000,
      transparentImageUrl := Some (js ''composed''), hasGenerated := True\<rparr>"
proof -
  have tb: "try_block demo_services uploaded_state False =
     ([Wait 650, SetProcessingStep Generating, CallGenerateStickerSheet (config uploaded_state),
       SetProcessingStep Removing, Wait 300, CallProcessTransparentSheet (js ''sheet'') True,
       CallSplitStickerSheet (js ''clean'') STICKER_COLUMNS STICKER_ROWS,
       CallComposeStickerSheet (map url (merge_slots False (stickerSlots uploaded_state) demo_urls (date_now demo_services)))
          STICKER_COLUMNS STICKER_ROWS,
       SetStickerSlots (merge_slots False (stickerSlots uploaded_state) demo_urls (date_now demo_services)),
       SetTransparentImageUrl (Some (js ''composed'')), SetHasGenerated True,
       SetProcessingStep Complete, ScheduleScrollToResult], None)"
    by (rule try_block_success) (simp_all add: demo_services_def demo_urls_length total_16)
  have now: "date_now demo_services = 1700000000000" by (simp add: demo_services_def)
  show ?thesis
    unfolding generated_state_def generateSheet_guarded [OF uploaded_guards]
    by (simp add: uploaded_facts total_16 tb run_effects_def now finally_block_def)
qed

lemma merge_fresh_locked:
  "map locked (merge_slots False slots regenerated now)
   = replicate (min TOTAL_STICKERS (length regenerated)) False"
  by (simp add: merge_slots_def comp_def case_prod_beta map_replicate_const)

lemma generated_facts:
  "isOnline generated_state" "base64Image (config generated_state) \<noteq> []"
  "length (stickerSlots generated_state) = 16"
  "map locked (stickerSlots generated_state) = replicate 16 False"
  by (simp_all add: generated_state_eq uploaded_facts merge_fresh_length merge_fresh_locked
      demo_urls_length total_16)

lemma toggle_fields:
  "isOnline (toggleStickerLock i st) = isOnline st"
  "config (toggleStickerLock i st) = config st"
  "length (stickerSlots (toggleStickerLock i st)) = length (stickerSlots st)"
  by (simp_all add: toggleStickerLock_def)

lemma toggle_loading: "loading (fold toggleStickerLock ixs st) = loading st"
  by (induction ixs arbitrary: st) (simp_all add: toggleStickerLock_def)

lemma toggle_locks:
  "map locked (stickerSlots (toggleStickerLock i st))
   = map (\<lambda>(j, b). if j = i then \<not> b else b)
         (zip [0..<length (stickerSlots st)] (map locked (stickerSlots st)))"
  by (rule nth_equalityI) (simp_all add: toggleStickerLock_def)

lemma toggle_url:
  "map url (stickerSlots (toggleStickerLock i st)) = map url (stickerSlots st)"
  by (rule nth_equalityI) (simp_all add: toggleStickerLock_def)

lemma reachable_toggles: "reachable st \<Longrightarrow> reachable (fold toggleStickerLock ixs st)"
  by (induction ixs arbitrary: st) (simp_all add: r_toggle)

lemma reachable_generated: "reachable generated_state"
  unfolding generated_state_def uploaded_state_def
  by (intro reachable_run r_upload r_init)

lemma upt_16: "[0..<16] = [0, 1, 2, 3, 4, 5, 6, 7, 8, 9, 10, 11, 12, 13, 14, 15]"
  by (simp add: upt_rec)

lemma replicate_16:
  "replicate 16 x = [x, x, x, x, x, x, x, x, x, x, x, x, x, x, x, x]"
  by (simp add: eval_nat_numeral)

lemma locked_facts:
  "isOnline locked_state" "base64Image (config locked_state) \<noteq> []"
  "length (stickerSlots locked_state) = 16"
  "map locked (stickerSlots locked_state) = replicate 16 True"
  by (simp_all add: locked_state_def upt_16 toggle_fields toggle_locks generated_facts replicate_16)

lemma half_locked_facts:
  "isOnline half_locked_state" "base64Image (config half_locked_state) \<noteq> []"
  "length (stickerSlots half_locked_state) = 16"
  "map locked (stickerSlots half_locked_state)
   = [True, False, False, False, False, True, False, False,
      False, False, False, False, False, False, False, False]"
  by (simp_all add: half_locked_state_def upt_16 toggle_fields toggle_locks generated_facts replicate_16)

lemma demo_calls:
  "generateStickerSheet demo_services c = Inr (js ''sheet'')"
  "processTransparentSheet demo_services u a = Inr (js ''clean'')"
  "splitStickerSheet demo_services u n m = Inr demo_urls"
  "generateStickerSheet short_services c = Inr (js ''sheet'')"
  "processTransparentSheet short_services u a = Inr (js ''clean'')"
  "splitStickerSheet short_services u n m = Inr (take 15 demo_urls)"
  by (simp_all add: demo_services_def short_services_def)

text \<open>
  Claim C2 (regeneration merge). Let a full set of 16 slots exist with at least one
  slot unlocked, the guards pass, and generation, extraction and slicing succeed with
  at least 16 regenerated stickers. Then a run of \<^verbatim>\<open>generateSheet\<close> calls the composer
  exactly once, with a 4 by 4 layout and a list of exactly 16 urls in index order; the
  url at index i is the prior slot's url if slot i is locked and the regenerated
  sticker of index i otherwise. If the composer succeeds, the stored slots carry these
  urls and the lock flags they had.
\<close>

theorem regeneration_merge_per_index:
  assumes on: "isOnline st" and img: "base64Image (config st) \<noteq> []"
    and full: "length (stickerSlots st) = TOTAL_STICKERS"
    and unlocked: "\<exists>slot\<in>set (stickerSlots st). \<not> locked slot"
    and gen: "generateStickerSheet S (config st) = Inr sheet"
    and proc: "processTransparentSheet S sheet True = Inr processed"
    and split: "splitStickerSheet S processed STICKER_COLUMNS STICKER_ROWS = Inr regenerated"
    and enough: "TOTAL_STICKERS \<le> length regenerated"
  shows "\<exists>urls. filter (\<lambda>e. stage_of e = Some Composition) (generateSheet S st)
                  = [CallComposeStickerSheet urls 4 4]
     \<and> length urls = 16
     \<and> (\<forall>i<16. urls ! i = (if locked (stickerSlots st ! i) then url (stickerSlots st ! i)
                             else regenerated ! i))
     \<and> (\<forall>composed. composeStickerSheet S urls 4 4 = Inr composed \<longrightarrow>
           map url (stickerSlots (run_effects (generateSheet S st) st)) = urls
           \<and> map locked (stickerSlots (run_effects (generateSheet S st) st))
               = map locked (stickerSlots st))"
proof -
  define merged where "merged = merge_slots True (stickerSlots st) regenerated (date_now S)"
  have g: "guards_pass st" using on img unlocked by (auto simp: guards_pass_def)
  have calls: "service_calls (generateSheet S st) =
     [CallGenerateStickerSheet (config st), CallProcessTransparentSheet sheet True,
      CallSplitStickerSheet processed STICKER_COLUMNS STICKER_ROWS,
      CallComposeStickerSheet (map url merged) STICKER_COLUMNS STICKER_ROWS]"
    using g full try_block_to_compose [OF gen proc split enough, of True]
    by (simp add: service_calls_generateSheet merged_def)
  have one: "filter (\<lambda>e. stage_of e = Some Composition) (generateSheet S st)
                  = [CallComposeStickerSheet (map url merged) 4 4]"
    unfolding filter_stage_service_calls [of Composition "generateSheet S st"] calls
    by (simp add: STICKER_COLUMNS_def STICKER_ROWS_def)
  have len: "length (map url merged) = 16"
    using full by (simp add: merged_def merge_reuse_length total_16)
  have sel: "\<forall>i<16. map url merged ! i = (if locked (stickerSlots st ! i) then url (stickerSlots st ! i)
                             else regenerated ! i)"
    using full by (simp add: merged_def merge_reuse_length merge_reuse_url total_16)
  have fin: "\<forall>composed. composeStickerSheet S (map url merged) 4 4 = Inr composed \<longrightarrow>
           map url (stickerSlots (run_effects (generateSheet S st) st)) = map url merged
           \<and> map locked (stickerSlots (run_effects (generateSheet S st) st))
               = map locked (stickerSlots st)"
  proof (intro allI impI)
    fix composed assume "composeStickerSheet S (map url merged) 4 4 = Inr composed"
    then have c: "composeStickerSheet S (map url (merge_slots True (stickerSlots st) regenerated (date_now S)))
        STICKER_COLUMNS STICKER_ROWS = Inr composed"
      by (simp add: merged_def STICKER_COLUMNS_def STICKER_ROWS_def)
    have slots: "stickerSlots (run_effects (generateSheet S st) st) = merged"
      unfolding generateSheet_guarded [OF g]
      using full try_block_success [OF gen proc split enough c]
      by (simp add: run_effects_def merged_def finally_block_def)
    have "map locked merged = map locked (stickerSlots st)"
      by (rule nth_equalityI) (simp_all add: merged_def merge_reuse_length merge_reuse_locked)
    then show "map url (stickerSlots (run_effects (generateSheet S st) st)) = map url merged
           \<and> map locked (stickerSlots (run_effects (generateSheet S st) st))
               = map locked (stickerSlots st)"
      using slots by simp
  qed
  show ?thesis using one len sel fin by blast
qed

theorem regeneration_merge_per_index_witness:
  "isOnline half_locked_state \<and> base64Image (config half_locked_state) \<noteq> []
   \<and> length (stickerSlots half_locked_state) = TOTAL_STICKERS
   \<and> locked (stickerSlots half_locked_state ! 0) \<and> \<not> locked (stickerSlots half_locked_state ! 1)
   \<and> generateStickerSheet demo_services (config half_locked_state) = Inr (js ''sheet'')
   \<and> processTransparentSheet demo_services (js ''sheet'') True = Inr (js ''clean'')
   \<and> splitStickerSheet demo_services (js ''clean'') STICKER_COLUMNS STICKER_ROWS = Inr demo_urls
   \<and> TOTAL_STICKERS \<le> length demo_urls
   \<and> (\<exists>urls. filter (\<lambda>e. stage_of e = Some Composition) (generateSheet demo_services half_locked_state)
                  = [CallComposeStickerSheet urls 4 4]
          \<and> length urls = 16
          \<and> urls ! 0 = url (stickerSlots half_locked_state ! 0)
          \<and> urls ! 1 = demo_urls ! 1)"
proof -
  have on: "isOnline half_locked_state" and img: "base64Image (config half_locked_state) \<noteq> []"
    by (simp_all add: half_locked_facts)
  have full: "length (stickerSlots half_locked_state) = TOTAL_STICKERS"
    by (simp add: half_locked_facts total_16)
  have l0: "locked (stickerSlots half_locked_state ! 0)"
    and l1: "\<not> locked (stickerSlots half_locked_state ! 1)"
    using half_locked_facts(4) [THEN arg_cong, of "\<lambda>bs. bs ! 0"]
      half_locked_facts(4) [THEN arg_cong, of "\<lambda>bs. bs ! 1"]
    by (simp_all add: half_locked_facts(3))
  have "stickerSlots half_locked_state ! 1 \<in> set (stickerSlots half_locked_state)"
    by (simp add: half_locked_facts(3))
  with l1 have un: "\<exists>slot\<in>set (stickerSlots half_locked_state). \<not> locked slot" by blast
  have gen: "generateStickerSheet demo_services (config half_locked_state) = Inr (js ''sheet'')"
    and proc: "processTransparentSheet demo_services (js ''sheet'') True = Inr (js ''clean'')"
    and split: "splitStickerSheet demo_services (js ''clean'') STICKER_COLUMNS STICKER_ROWS = Inr demo_urls"
    by (simp_all add: demo_calls)
  have enough: "TOTAL_STICKERS \<le> length demo_urls" by (simp add: demo_urls_length total_16)
  obtain urls where u: "filter (\<lambda>e. stage_of e = Some Composition) (generateSheet demo_services half_locked_state)
                  = [CallComposeStickerSheet urls 4 4]"
      "length urls = 16"
      "\<forall>i<16. urls ! i = (if locked (stickerSlots half_locked_state ! i)
                            then url (stickerSlots half_locked_state ! i) else demo_urls ! i)"
    using regeneration_merge_per_index [OF on img full un gen proc split enough] by blast
  have "urls ! 0 = url (stickerSlots half_locked_state ! 0)" "urls ! 1 = demo_urls ! 1"
    using u(3) l0 l1 by simp_all
  with u(1,2) have "\<exists>urls. filter (\<lambda>e. stage_of e = Some Composition) (generateSheet demo_services half_locked_state)
                  = [CallComposeStickerSheet urls 4 4]
          \<and> length urls = 16
          \<and> urls ! 0 = url (stickerSlots half_locked_state ! 0)
          \<and> urls ! 1 = demo_urls ! 1" by blast
  then show ?thesis using on img full l0 l1 gen proc split enough by blast
qed

text \<open>
  Claim C3 (incomplete sheet). Let the guards pass and generation and extraction
  succeed, and let slicing return fewer than 16 stickers. Then the \<^verbatim>\<open>try\<close> block throws
  the error "Generated sheet is incomplete. Please try again.", and the run is exactly
  the listed sequence: the generation service is called once (no retry), the composer
  is never called, neither the slots nor the sheet url are set, and the run ends with
  the error message shown and the loading state reset, the rest of the state as before.
\<close>

theorem incomplete_sheet_rejected:
  assumes on: "isOnline st" and img: "base64Image (config st) \<noteq> []"
    and open_slot: "\<not> (length (stickerSlots st) = TOTAL_STICKERS \<and> (\<forall>slot\<in>set (stickerSlots st). locked slot))"
    and gen: "generateStickerSheet S (config st) = Inr sheet"
    and proc: "processTransparentSheet S sheet True = Inr processed"
    and split: "splitStickerSheet S processed STICKER_COLUMNS STICKER_ROWS = Inr regenerated"
    and short: "length regenerated < TOTAL_STICKERS"
  shows "generateSheet S st =
           [SetGenerationTargetCount (if length (stickerSlots st) = TOTAL_STICKERS
                                      then length (filter (\<lambda>slot. \<not> locked slot) (stickerSlots st))
                                      else TOTAL_STICKERS),
            SetLoading True, SetProcessingStep Analyzing, SetError None,
            Wait 650, SetProcessingStep Generating, CallGenerateStickerSheet (config st),
            SetProcessingStep Removing, Wait 300, CallProcessTransparentSheet sheet True,
            CallSplitStickerSheet processed 4 4,
            SetError (Some incomplete_message),
            SetLoading False, SetProcessingStep Idle, SetGenerationTargetCount 16]
     \<and> snd (try_block S st (length (stickerSlots st) = TOTAL_STICKERS))
         = Some (Thrown incomplete_message)
     \<and> run_effects (generateSheet S st) st =
           st\<lparr>error := Some incomplete_message, loading := False, processingStep := Idle,
              generationTargetCount := 16\<rparr>
     \<and> filter (\<lambda>e. stage_of e = Some Generation) (generateSheet S st)
           = [CallGenerateStickerSheet (config st)]
     \<and> filter (\<lambda>e. stage_of e = Some Composition) (generateSheet S st) = []
     \<and> (\<forall>slots. SetStickerSlots slots \<notin> set (generateSheet S st))
     \<and> (\<forall>u. SetTransparentImageUrl u \<notin> set (generateSheet S st))"
proof -
  have g: "guards_pass st" using on img open_slot by (simp add: guards_pass_def)
  note tb = try_block_incomplete [OF gen proc split short, of "length (stickerSlots st) = TOTAL_STICKERS"]
  have tr: "generateSheet S st =
           [SetGenerationTargetCount (if length (stickerSlots st) = TOTAL_STICKERS
                                      then length (filter (\<lambda>slot. \<not> locked slot) (stickerSlots st))
                                      else TOTAL_STICKERS),
            SetLoading True, SetProcessingStep Analyzing, SetError None,
            Wait 650, SetProcessingStep Generating, CallGenerateStickerSheet (config st),
            SetProcessingStep Removing, Wait 300, CallProcessTransparentSheet sheet True,
            CallSplitStickerSheet processed 4 4,
            SetError (Some incomplete_message),
            SetLoading False, SetProcessingStep Idle, SetGenerationTargetCount 16]"
    unfolding generateSheet_guarded [OF g] tb
    by (simp add: catch_finally_incomplete total_16 STICKER_COLUMNS_def STICKER_ROWS_def)
  have thrown: "snd (try_block S st (length (stickerSlots st) = TOTAL_STICKERS))
         = Some (Thrown incomplete_message)"
    unfolding tb by simp
  have fin: "run_effects (generateSheet S st) st =
           st\<lparr>error := Some incomplete_message, loading := False, processingStep := Idle,
              generationTargetCount := 16\<rparr>"
    unfolding tr by (simp add: run_effects_def)
  have rest: "filter (\<lambda>e. stage_of e = Some Generation) (generateSheet S st)
           = [CallGenerateStickerSheet (config st)]
     \<and> filter (\<lambda>e. stage_of e = Some Composition) (generateSheet S st) = []
     \<and> (\<forall>slots. SetStickerSlots slots \<notin> set (generateSheet S st))
     \<and> (\<forall>u. SetTransparentImageUrl u \<notin> set (generateSheet S st))"
    unfolding tr by simp
  show ?thesis by (rule conjI [OF tr conjI [OF thrown conjI [OF fin rest]]])
qed

theorem incomplete_sheet_rejected_witness:
  "isOnline uploaded_state \<and> base64Image (config uploaded_state) \<noteq> []
   \<and> stickerSlots uploaded_state = []
   \<and> generateStickerSheet short_services (config uploaded_state) = Inr (js ''sheet'')
   \<and> processTransparentSheet short_services (js ''sheet'') True = Inr (js ''clean'')
   \<and> splitStickerSheet short_services (js ''clean'') STICKER_COLUMNS STICKER_ROWS = Inr (take 15 demo_urls)
   \<and> length (take 15 demo_urls) < TOTAL_STICKERS
   \<and> run_effects (generateSheet short_services uploaded_state) uploaded_state
       = uploaded_state\<lparr>error := Some incomplete_message, loading := False, processingStep := Idle,
                         generationTargetCount := 16\<rparr>
   \<and> filter (\<lambda>e. stage_of e = Some Composition) (generateSheet short_services uploaded_state) = []"
proof -
  have on: "isOnline uploaded_state" and img: "base64Image (config uploaded_state) \<noteq> []"
    by (simp_all add: uploaded_facts)
  have op: "\<not> (length (stickerSlots uploaded_state) = TOTAL_STICKERS
          \<and> (\<forall>slot\<in>set (stickerSlots uploaded_state). locked slot))"
    by (simp add: uploaded_facts total_16)
  have gen: "generateStickerSheet short_services (config uploaded_state) = Inr (js ''sheet'')"
    and proc: "processTransparentSheet short_services (js ''sheet'') True = Inr (js ''clean'')"
    and split: "splitStickerSheet short_services (js ''clean'') STICKER_COLUMNS STICKER_ROWS = Inr (take 15 demo_urls)"
    by (simp_all add: demo_calls)
  have short: "length (take 15 demo_urls) < TOTAL_STICKERS" by (simp add: demo_urls_length total_16)
  note main = incomplete_sheet_rejected [OF on img op gen proc split short]
  have fin: "run_effects (generateSheet short_services uploaded_state) uploaded_state
       = uploaded_state\<lparr>error := Some incomplete_message, loading := False, processingStep := Idle,
                         generationTargetCount := 16\<rparr>"
    using main [THEN conjunct2, THEN conjunct2, THEN conjunct1] .
  have nc: "filter (\<lambda>e. stage_of e = Some Composition) (generateSheet short_services uploaded_state) = []"
    using main [THEN conjunct2, THEN conjunct2, THEN conjunct2, THEN conjunct2, THEN conjunct1] .
  have em: "stickerSlots uploaded_state = []" by (rule uploaded_facts)
  show ?thesis using on img em gen proc split short fin nc by blast
qed

text \<open>
  Claim C8 (stage order). The calls to the collaborators in a run of \<^verbatim>\<open>generateSheet\<close>
  are determined exactly, whatever the state and the behaviour of the services. If a
  guard fails there is none. Otherwise generation is called on the configuration; if it
  resolves with a sheet, extraction is called next on that sheet with
  \<open>aggressive = true\<close>; if that resolves, slicing is called on the extracted sheet with
  4 columns and 4 rows; if that resolves with at least 16 stickers, composition is
  called last on the urls of the merged slots with a 4 by 4 layout; a stage that
  rejects (or too short a slicing result) ends the calls. Hence the calls are an
  initial part of generation, extraction, slicing, composition, each stage at most
  once; no extraction call has \<open>aggressive = false\<close>; and composition receives 16
  urls.
\<close>

theorem pipeline_stage_order:
  "service_calls (generateSheet S st) =
     (if isOnline st \<and> base64Image (config st) \<noteq> []
         \<and> \<not> (length (stickerSlots st) = TOTAL_STICKERS
                \<and> (\<forall>slot\<in>set (stickerSlots st). locked slot))
      then (case generateStickerSheet S (config st) of
              Inl err \<Rightarrow> [CallGenerateStickerSheet (config st)]
            | Inr sheet \<Rightarrow>
               (case processTransparentSheet S sheet True of
                  Inl err \<Rightarrow> [CallGenerateStickerSheet (config st),
                               CallProcessTransparentSheet sheet True]
                | Inr processed \<Rightarrow>
                   (case splitStickerSheet S processed 4 4 of
                      Inl err \<Rightarrow> [CallGenerateStickerSheet (config st),
                                   CallProcessTransparentSheet sheet True,
                                   CallSplitStickerSheet processed 4 4]
                    | Inr regenerated \<Rightarrow>
                        if length regenerated < 16
                        then [CallGenerateStickerSheet (config st),
                              CallProcessTransparentSheet sheet True,
                              CallSplitStickerSheet processed 4 4]
                        else [CallGenerateStickerSheet (config st),
                              CallProcessTransparentSheet sheet True,
                              CallSplitStickerSheet processed 4 4,
                              CallComposeStickerSheet
                                (map url (merge_slots (length (stickerSlots st) = TOTAL_STICKERS)
                                            (stickerSlots st) regenerated (date_now S)))
                                4 4])))
      else [])
   \<and> prefix (map stage_of (service_calls (generateSheet S st)))
          [Some Generation, Some Extraction, Some Slicing, Some Composition]
   \<and> (\<forall>u a. CallProcessTransparentSheet u a \<in> set (generateSheet S st) \<longrightarrow>
         a \<and> generateStickerSheet S (config st) = Inr u)
   \<and> (\<forall>u c r. CallSplitStickerSheet u c r \<in> set (generateSheet S st) \<longrightarrow>
         c = 4 \<and> r = 4
         \<and> (\<exists>sheet. generateStickerSheet S (config st) = Inr sheet
                    \<and> processTransparentSheet S sheet True = Inr u))
   \<and> (\<forall>us c r. CallComposeStickerSheet us c r \<in> set (generateSheet S st) \<longrightarrow>
         c = 4 \<and> r = 4 \<and> length us = 16)"
proof -
  have exact: "service_calls (generateSheet S st) =
     (if isOnline st \<and> base64Image (config st) \<noteq> []
         \<and> \<not> (length (stickerSlots st) = TOTAL_STICKERS
                \<and> (\<forall>slot\<in>set (stickerSlots st). locked slot))
      then (case generateStickerSheet S (config st) of
              Inl err \<Rightarrow> [CallGenerateStickerSheet (config st)]
            | Inr sheet \<Rightarrow>
               (case processTransparentSheet S sheet True of
                  Inl err \<Rightarrow> [CallGenerateStickerSheet (config st),
                               CallProcessTransparentSheet sheet True]
                | Inr processed \<Rightarrow>
                   (case splitStickerSheet S processed 4 4 of
                      Inl err \<Rightarrow> [CallGenerateStickerSheet (config st),
                                   CallProcessTransparentSheet sheet True,
                                   CallSplitStickerSheet processed 4 4]
                    | Inr regenerated \<Rightarrow>
                        if length regenerated < 16
                        then [CallGenerateStickerSheet (config st),
                              CallProcessTransparentSheet sheet True,
                              CallSplitStickerSheet processed 4 4]
                        else [CallGenerateStickerSheet (config st),
                              CallProcessTransparentSheet sheet True,
                              CallSplitStickerSheet processed 4 4,
                              CallComposeStickerSheet
                                (map url (merge_slots (length (stickerSlots st) = TOTAL_STICKERS)
                                            (stickerSlots st) regenerated (date_now S)))
                                4 4])))
      else [])"
  proof (cases "guards_pass st")
    case True
    then have c: "isOnline st \<and> base64Image (config st) \<noteq> []
         \<and> \<not> (length (stickerSlots st) = TOTAL_STICKERS
                \<and> (\<forall>slot\<in>set (stickerSlots st). locked slot))"
      by (simp add: guards_pass_def)
    have n: "STICKER_COLUMNS = 4" "STICKER_ROWS = 4" by (simp_all add: STICKER_COLUMNS_def STICKER_ROWS_def)
    have "service_calls (generateSheet S st)
          = service_calls (fst (try_block S st (length (stickerSlots st) = TOTAL_STICKERS)))"
      using True by (simp add: service_calls_generateSheet)
    also have "\<dots> = (case generateStickerSheet S (config st) of
              Inl err \<Rightarrow> [CallGenerateStickerSheet (config st)]
            | Inr sheet \<Rightarrow>
               (case processTransparentSheet S sheet True of
                  Inl err \<Rightarrow> [CallGenerateStickerSheet (config st),
                               CallProcessTransparentSheet sheet True]
                | Inr processed \<Rightarrow>
                   (case splitStickerSheet S processed 4 4 of
                      Inl err \<Rightarrow> [CallGenerateStickerSheet (config st),
                                   CallProcessTransparentSheet sheet True,
                                   CallSplitStickerSheet processed 4 4]
                    | Inr regenerated \<Rightarrow>
                        if length regenerated < 16
                        then [CallGenerateStickerSheet (config st),
                              CallProcessTransparentSheet sheet True,
                              CallSplitStickerSheet processed 4 4]
                        else [CallGenerateStickerSheet (config st),
                              CallProcessTransparentSheet sheet True,
                              CallSplitStickerSheet processed 4 4,
                              CallComposeStickerSheet
                                (map url (merge_slots (length (stickerSlots st) = TOTAL_STICKERS)
                                            (stickerSlots st) regenerated (date_now S)))
                                4 4])))"
      unfolding try_block_calls n by (simp add: total_16 split: sum.splits)
    finally show ?thesis by (simp only: if_P [OF c])
  next
    case False
    then have c: "\<not> (isOnline st \<and> base64Image (config st) \<noteq> []
         \<and> \<not> (length (stickerSlots st) = TOTAL_STICKERS
                \<and> (\<forall>slot\<in>set (stickerSlots st). locked slot)))"
      by (simp add: guards_pass_def)
    have "service_calls (generateSheet S st) = []"
      using False by (simp add: service_calls_generateSheet)
    then show ?thesis by (simp only: if_not_P [OF c])
  qed
  have order: "prefix (map stage_of (service_calls (generateSheet S st)))
          [Some Generation, Some Extraction, Some Slicing, Some Composition]"
    by (simp add: service_calls_generateSheet try_block_calls split: sum.splits)
  have extraction: "\<forall>u a. CallProcessTransparentSheet u a \<in> set (generateSheet S st) \<longrightarrow>
         a \<and> generateStickerSheet S (config st) = Inr u"
  proof (intro allI impI)
    fix u a assume "CallProcessTransparentSheet u a \<in> set (generateSheet S st)"
    then have "CallProcessTransparentSheet u a \<in> set (service_calls (generateSheet S st))"
      by (simp add: call_in_service_calls [symmetric])
    then show "a \<and> generateStickerSheet S (config st) = Inr u"
      by (auto simp: service_calls_generateSheet try_block_calls split: sum.splits if_splits)
  qed
  have slicing: "\<forall>u c r. CallSplitStickerSheet u c r \<in> set (generateSheet S st) \<longrightarrow>
         c = 4 \<and> r = 4
         \<and> (\<exists>sheet. generateStickerSheet S (config st) = Inr sheet
                    \<and> processTransparentSheet S sheet True = Inr u)"
  proof (intro allI impI)
    fix u c r assume "CallSplitStickerSheet u c r \<in> set (generateSheet S st)"
    then have "CallSplitStickerSheet u c r \<in> set (service_calls (generateSheet S st))"
      by (simp add: call_in_service_calls [symmetric])
    then show "c = 4 \<and> r = 4 \<and> (\<exists>sheet. generateStickerSheet S (config st) = Inr sheet
                    \<and> processTransparentSheet S sheet True = Inr u)"
      by (auto simp: service_calls_generateSheet try_block_calls STICKER_COLUMNS_def STICKER_ROWS_def
          split: sum.splits if_splits)
  qed
  have composition: "\<forall>us c r. CallComposeStickerSheet us c r \<in> set (generateSheet S st) \<longrightarrow>
         c = 4 \<and> r = 4 \<and> length us = 16"
  proof (intro allI impI)
    fix us c r assume "CallComposeStickerSheet us c r \<in> set (generateSheet S st)"
    then have "CallComposeStickerSheet us c r \<in> set (service_calls (generateSheet S st))"
      by (simp add: call_in_service_calls [symmetric])
    then have "c = 4 \<and> r = 4 \<and> length us = TOTAL_STICKERS"
      by (auto simp: service_calls_generateSheet try_block_calls STICKER_COLUMNS_def STICKER_ROWS_def
          merged_length split: sum.splits if_splits)
    then show "c = 4 \<and> r = 4 \<and> length us = 16" by (simp add: total_16)
  qed
  show ?thesis
    by (rule conjI [OF exact conjI [OF order conjI [OF extraction conjI [OF slicing composition]]]])
qed

theorem pipeline_stage_order_witness:
  "service_calls (generateSheet demo_services uploaded_state)
     = [CallGenerateStickerSheet (config uploaded_state),
        CallProcessTransparentSheet (js ''sheet'') True,
        CallSplitStickerSheet (js ''clean'') 4 4,
        CallComposeStickerSheet (map url (merge_slots False [] demo_urls 1700000000000)) 4 4]
   \<and> service_calls (generateSheet short_services uploaded_state)
     = [CallGenerateStickerSheet (config uploaded_state),
        CallProcessTransparentSheet (js ''sheet'') True,
        CallSplitStickerSheet (js ''clean'') 4 4]
   \<and> service_calls (generateSheet demo_services locked_state) = []
   \<and> CallProcessTransparentSheet (js ''sheet'') True \<in> set (generateSheet demo_services uploaded_state)
   \<and> generateStickerSheet demo_services (config uploaded_state) = Inr (js ''sheet'')"
proof -
  have al: "\<forall>slot\<in>set (stickerSlots locked_state). locked slot"
  proof -
    have "set (map locked (stickerSlots locked_state)) \<subseteq> {True}" by (simp add: locked_facts)
    then show ?thesis by auto
  qed
  have now: "date_now demo_services = 1700000000000" by (simp add: demo_services_def)
  have full: "service_calls (generateSheet demo_services uploaded_state)
     = [CallGenerateStickerSheet (config uploaded_state),
        CallProcessTransparentSheet (js ''sheet'') True,
        CallSplitStickerSheet (js ''clean'') 4 4,
        CallComposeStickerSheet (map url (merge_slots False [] demo_urls 1700000000000)) 4 4]"
    using pipeline_stage_order [of demo_services uploaded_state, THEN conjunct1]
    by (simp add: uploaded_facts total_16 demo_calls demo_urls_length now)
  have short: "service_calls (generateSheet short_services uploaded_state)
     = [CallGenerateStickerSheet (config uploaded_state),
        CallProcessTransparentSheet (js ''sheet'') True,
        CallSplitStickerSheet (js ''clean'') 4 4]"
    using pipeline_stage_order [of short_services uploaded_state, THEN conjunct1]
    by (simp add: uploaded_facts total_16 demo_calls demo_urls_length)
  have none: "service_calls (generateSheet demo_services locked_state) = []"
    using pipeline_stage_order [of demo_services locked_state, THEN conjunct1] al
    by (simp add: locked_facts total_16)
  have "CallProcessTransparentSheet (js ''sheet'') True
          \<in> set (service_calls (generateSheet demo_services uploaded_state))"
    unfolding full by simp
  then have mem: "CallProcessTransparentSheet (js ''sheet'') True
          \<in> set (generateSheet demo_services uploaded_state)"
    by (simp add: call_in_service_calls [symmetric])
  have g: "generateStickerSheet demo_services (config uploaded_state) = Inr (js ''sheet'')"
    using pipeline_stage_order [of demo_services uploaded_state, THEN conjunct2, THEN conjunct2,
        THEN conjunct1, THEN spec, THEN spec, THEN mp, OF mem] by simp
  show ?thesis using full short none mem g by blast
qed

text \<open>
  Claim C10 (all slots locked). In every state with a full set of 16 slots that are
  all locked, \<^verbatim>\<open>generateSheet\<close> does nothing but set an error message (the all-locked
  message when the device is online and an image is present, the message of the earlier
  guard otherwise): the loading state is not entered, no service is called, and slots
  and sheet url stay as they are. In every such state that the component can reach, the
  generate button is disabled.
\<close>

theorem all_locked_regenerate_rejected:
  assumes full: "length (stickerSlots st) = TOTAL_STICKERS"
    and all_locked: "\<forall>slot\<in>set (stickerSlots st). locked slot"
  shows "generateSheet S st =
           [SetError (Some (if \<not> isOnline st then offline_message
                            else if base64Image (config st) = [] then no_image_message
                            else all_locked_message))]
     \<and> run_effects (generateSheet S st) st =
           st\<lparr>error := Some (if \<not> isOnline st then offline_message
                              else if base64Image (config st) = [] then no_image_message
                              else all_locked_message)\<rparr>
     \<and> SetLoading True \<notin> set (generateSheet S st)
     \<and> service_calls (generateSheet S st) = []
     \<and> (reachable st \<longrightarrow> generate_button_disabled st)"
proof -
  have ng: "\<not> guards_pass st" using full all_locked by (simp add: guards_pass_def)
  note tr = generateSheet_rejected [OF ng, of S]
  have ne: "stickerSlots st \<noteq> []" using full by (auto simp: total_16)
  have "filter locked (stickerSlots st) = stickerSlots st" using all_locked by (simp add: filter_id_conv)
  then have lc: "lockedCount st = TOTAL_STICKERS" using full by (simp add: lockedCount_def)
  have b: "reachable st \<longrightarrow> generate_button_disabled st"
  proof
    assume "reachable st"
    then have "hasGenerated st" using reachable_slots_generated ne by blast
    then show "generate_button_disabled st" using lc full by (simp add: generate_button_disabled_def)
  qed
  show ?thesis unfolding tr using b by (simp add: run_effects_def service_calls_def)
qed

theorem all_locked_regenerate_rejected_witness:
  "reachable locked_state \<and> length (stickerSlots locked_state) = TOTAL_STICKERS
   \<and> map locked (stickerSlots locked_state) = replicate 16 True
   \<and> isOnline locked_state \<and> base64Image (config locked_state) \<noteq> []
   \<and> generateSheet demo_services locked_state = [SetError (Some all_locked_message)]
   \<and> run_effects (generateSheet demo_services locked_state) locked_state
       = locked_state\<lparr>error := Some all_locked_message\<rparr>
   \<and> hasGenerated locked_state \<and> lockedCount locked_state = TOTAL_STICKERS"
proof -
  have r: "reachable locked_state"
    unfolding locked_state_def by (intro reachable_toggles reachable_generated)
  have full: "length (stickerSlots locked_state) = TOTAL_STICKERS"
    by (simp add: locked_facts total_16)
  have ml: "map locked (stickerSlots locked_state) = replicate 16 True" by (rule locked_facts)
  then have "set (map locked (stickerSlots locked_state)) \<subseteq> {True}" by simp
  then have al: "\<forall>slot\<in>set (stickerSlots locked_state). locked slot" by auto
  have on: "isOnline locked_state" and img: "base64Image (config locked_state) \<noteq> []"
    by (rule locked_facts)+
  note main = all_locked_regenerate_rejected [OF full al, of demo_services]
  have tr: "generateSheet demo_services locked_state = [SetError (Some all_locked_message)]"
    using main [THEN conjunct1] on img by simp
  have fin: "run_effects (generateSheet demo_services locked_state) locked_state
       = locked_state\<lparr>error := Some all_locked_message\<rparr>"
    using main [THEN conjunct2, THEN conjunct1] on img by simp
  have "generate_button_disabled locked_state"
    using main [THEN conjunct2, THEN conjunct2, THEN conjunct2, THEN conjunct2, THEN mp, OF r] .
  then have b: "hasGenerated locked_state \<and> lockedCount locked_state = TOTAL_STICKERS"
    using on img by (simp add: generate_button_disabled_def locked_state_def toggle_loading
        generated_state_eq uploaded_state_eq initial_state_def)
  show ?thesis using r full ml on img tr fin b by blast
qed

section \<open>Properties of the caption service\<close>

lemma defaultCaptions_length: "length defaultCaptions = 16"
  by (simp add: defaultCaptions_def)

lemma defaultCaptions_nonempty: "\<forall>c\<in>set defaultCaptions. c \<noteq> []"
  by (simp add: defaultCaptions_def)

lemma pad_length:
  "length (pad_captions (take 16 (filter P xs))) = 16"
  by (simp add: pad_captions_def defaultCaptions_length)

lemma pad_append:
  "pad_captions (take 16 (filter P xs))
   = take 16 (filter P xs) @ drop (length (take 16 (filter P xs))) defaultCaptions"
proof -
  have "take 16 defaultCaptions = defaultCaptions" by (simp add: defaultCaptions_length)
  then show ?thesis by (simp add: pad_captions_def)
qed

lemma pad_nonempty:
  "\<forall>c\<in>set (pad_captions (take 16 (filter (\<lambda>item. 0 < length item) xs))). c \<noteq> []"
proof -
  let ?s = "take 16 (filter (\<lambda>item. 0 < length item) xs)"
  have "set ?s \<subseteq> set (filter (\<lambda>item. 0 < length item) xs)" by (rule set_take_subset)
  then have s: "\<forall>c\<in>set ?s. c \<noteq> []" by auto
  have "set (drop (length ?s) defaultCaptions) \<subseteq> set defaultCaptions" by (rule set_drop_subset)
  then have d: "\<forall>c\<in>set (drop (length ?s) defaultCaptions). c \<noteq> []"
    using defaultCaptions_nonempty by blast
  show ?thesis
  proof (unfold pad_append, rule ballI)
    fix c assume "c \<in> set (?s @ drop (length ?s) defaultCaptions)"
    then have "c \<in> set ?s \<or> c \<in> set (drop (length ?s) defaultCaptions)" by simp
    then show "c \<noteq> []" using s d by blast
  qed
qed

lemma captions_cases:
  fixes generateContent parse theme
  defines "r \<equiv> try_captions generateContent parse theme"
  defines "answer \<equiv> generateContent (if theme = [] then js ''friendly character'' else theme)"
  shows "(r = defaultCaptions
          \<and> (answer = Rejects \<or> answer = Responds None \<or> answer = Responds (Some [])
              \<or> (\<exists>t. answer = Responds (Some t) \<and> parse t = None)
              \<or> (\<exists>t v. answer = Responds (Some t) \<and> parse t = Some v \<and> (\<forall>items. v \<noteq> JArray items))))
         \<or> (\<exists>t items. answer = Responds (Some t) \<and> t \<noteq> [] \<and> parse t = Some (JArray items)
               \<and> r = pad_captions (take 16 (filter (\<lambda>item. 0 < length item)
                                              (map trim (string_items items)))))"
proof (cases answer)
  case Rejects
  then show ?thesis by (simp add: r_def answer_def try_captions_def)
next
  case (Responds reply)
  show ?thesis
  proof (cases reply)
    case None
    then show ?thesis using Responds by (simp add: r_def answer_def try_captions_def)
  next
    case (Some t)
    show ?thesis
    proof (cases "t = []")
      case True
      then show ?thesis using Responds Some by (simp add: r_def answer_def try_captions_def)
    next
      case False
      show ?thesis
      proof (cases "parse t")
        case None
        then show ?thesis using Responds Some False
          by (simp add: r_def answer_def try_captions_def)
      next
        case (Some v)
        note pv = Some
        have a: "answer = Responds (Some t)" using Responds \<open>reply = Some t\<close> by simp
        show ?thesis
        proof (cases v)
          case (JArray items)
          have "r = pad_captions (take 16 (filter (\<lambda>item. 0 < length item)
                                              (map trim (string_items items))))"
            using a False pv JArray
            by (simp add: r_def answer_def try_captions_def pad_captions_def Let_def)
          then show ?thesis using a False pv JArray by blast
        qed (use a False pv in \<open>simp_all add: r_def answer_def try_captions_def\<close>)
      qed
    qed
  qed
qed

lemma captions_reject_without_client:
  "generateStickerCaptions (Some err) generateContent parse theme = Inl err"
  by (simp add: generateStickerCaptions_def)

text \<open>
  Claim C9 (caption list). Provided the client object of line 15 is constructed, so
  that the caption-model call is made: for every theme, every outcome of the model call
  and every behaviour of \<^verbatim>\<open>JSON.parse\<close>, \<^verbatim>\<open>generateStickerCaptions\<close> resolves with exactly
  16 strings, none of them empty. When the call rejects, the text is missing or empty,
  parsing throws, or the parsed value is not an array, the result is the default list.
  For a parsed array it is the trimmed, non-empty string elements, cut to 16, followed
  by the default captions from that position on.
\<close>

theorem captions_sixteen_nonempty:
  assumes client: "newClient = None"
  shows "generateStickerCaptions newClient generateContent parse theme
           = Inr (try_captions generateContent parse theme)
   \<and> length (try_captions generateContent parse theme) = 16
   \<and> (\<forall>c\<in>set (try_captions generateContent parse theme). c \<noteq> [])
   \<and> (generateContent (if theme = [] then js ''friendly character'' else theme) = Rejects \<longrightarrow>
        try_captions generateContent parse theme = defaultCaptions)
   \<and> (\<forall>text. generateContent (if theme = [] then js ''friendly character'' else theme) = Responds text
          \<and> (text = None \<or> text = Some [] \<or> (\<exists>t. text = Some t \<and> parse t = None)
              \<or> (\<exists>t v. text = Some t \<and> parse t = Some v \<and> (\<forall>items. v \<noteq> JArray items))) \<longrightarrow>
        try_captions generateContent parse theme = defaultCaptions)
   \<and> (\<forall>t items. generateContent (if theme = [] then js ''friendly character'' else theme) = Responds (Some t)
          \<and> t \<noteq> [] \<and> parse t = Some (JArray items) \<longrightarrow>
        try_captions generateContent parse theme
        = take 16 (filter (\<lambda>item. 0 < length item) (map trim (string_items items)))
          @ drop (length (take 16 (filter (\<lambda>item. 0 < length item) (map trim (string_items items)))))
                 defaultCaptions)"
proof -
  let ?r = "try_captions generateContent parse theme"
  let ?answer = "generateContent (if theme = [] then js ''friendly character'' else theme)"
  note cs = captions_cases [of generateContent parse theme]
  have res: "generateStickerCaptions newClient generateContent parse theme = Inr ?r"
    using client by (simp add: generateStickerCaptions_def)
  have len: "length ?r = 16"
    using cs by (auto simp: defaultCaptions_length pad_length)
  have ne: "\<forall>c\<in>set ?r. c \<noteq> []"
  proof (rule disjE [OF cs])
    assume "?r = defaultCaptions
          \<and> (?answer = Rejects \<or> ?answer = Responds None \<or> ?answer = Responds (Some [])
              \<or> (\<exists>t. ?answer = Responds (Some t) \<and> parse t = None)
              \<or> (\<exists>t v. ?answer = Responds (Some t) \<and> parse t = Some v \<and> (\<forall>items. v \<noteq> JArray items)))"
    then have "?r = defaultCaptions" ..
    then show ?thesis using defaultCaptions_nonempty by (simp only:)
  next
    assume "\<exists>t items. ?answer = Responds (Some t) \<and> t \<noteq> [] \<and> parse t = Some (JArray items)
               \<and> ?r = pad_captions (take 16 (filter (\<lambda>item. 0 < length item)
                                              (map trim (string_items items))))"
    then obtain items where "?r = pad_captions (take 16 (filter (\<lambda>item. 0 < length item)
                                              (map trim (string_items items))))" by blast
    then show ?thesis using pad_nonempty [of "map trim (string_items items)"] by (simp only:)
  qed
  have rej: "?answer = Rejects \<longrightarrow> ?r = defaultCaptions"
    using cs by auto
  have dflt: "\<forall>text. ?answer = Responds text
          \<and> (text = None \<or> text = Some [] \<or> (\<exists>t. text = Some t \<and> parse t = None)
              \<or> (\<exists>t v. text = Some t \<and> parse t = Some v \<and> (\<forall>items. v \<noteq> JArray items))) \<longrightarrow>
        ?r = defaultCaptions"
    using cs by auto
  have arr: "\<forall>t items. ?answer = Responds (Some t)
          \<and> t \<noteq> [] \<and> parse t = Some (JArray items) \<longrightarrow>
        ?r = take 16 (filter (\<lambda>item. 0 < length item) (map trim (string_items items)))
          @ drop (length (take 16 (filter (\<lambda>item. 0 < length item) (map trim (string_items items)))))
                 defaultCaptions"
    using cs by (auto simp: pad_append)
  show ?thesis
    by (rule conjI [OF res conjI [OF len conjI [OF ne conjI [OF rej conjI [OF dflt arr]]]]])
qed

lemma js_length: "length (js s) = length s"
  by (simp add: js_def)

lemma trim_hi: "trim (js '' hi '') = js ''hi''" "trim (js ''  '') = []"
  by (simp_all add: trim_def js_def is_js_space_def)

theorem captions_sixteen_nonempty_witness:
  "generateStickerCaptions None demo_model demo_parse []
     = Inr (js ''hi'' # drop 1 defaultCaptions)
   \<and> length (try_captions demo_model demo_parse []) = 16
   \<and> js ''hi'' \<in> set (try_captions demo_model demo_parse [])
   \<and> js ''hi'' \<noteq> []"
proof -
  note main = captions_sixteen_nonempty [OF refl, of demo_model demo_parse "[]"]
  have hi: "js ''hi'' \<noteq> []" by (simp add: js_def)
  have a: "demo_model (if ([]::jstring) = [] then js ''friendly character'' else []) = Responds (Some (js ''answer''))
       \<and> js ''answer'' \<noteq> []
       \<and> demo_parse (js ''answer'') = Some (JArray [JString (js '' hi ''), JString (js ''  ''), JNumber 7])"
    by (simp add: demo_model_def demo_parse_def js_def)
  have r0: "try_captions demo_model demo_parse []
        = take 16 (filter (\<lambda>item. 0 < length item)
                     (map trim (string_items [JString (js '' hi ''), JString (js ''  ''), JNumber 7])))
          @ drop (length (take 16 (filter (\<lambda>item. 0 < length item)
                     (map trim (string_items [JString (js '' hi ''), JString (js ''  ''), JNumber 7])))))
                 defaultCaptions"
    using main [THEN conjunct2, THEN conjunct2, THEN conjunct2, THEN conjunct2, THEN conjunct2,
        THEN spec, THEN spec, THEN mp, OF a] .
  have r: "try_captions demo_model demo_parse [] = js ''hi'' # drop 1 defaultCaptions"
    unfolding r0 by (simp add: trim_hi hi)
  have g: "generateStickerCaptions None demo_model demo_parse []
     = Inr (js ''hi'' # drop 1 defaultCaptions)"
    using main [THEN conjunct1] r by simp
  have l: "length (try_captions demo_model demo_parse []) = 16"
    using main [THEN conjunct2, THEN conjunct1] .
  have m: "js ''hi'' \<in> set (try_captions demo_model demo_parse [])"
    unfolding r by simp
  have n: "js ''hi'' \<noteq> []"
    using main [THEN conjunct2, THEN conjunct2, THEN conjunct1, THEN bspec, OF m] .
  show ?thesis using g l m n by blast
qed

end
